theory Spec2Isabelle
  imports Main "HOL-Library.Word"
begin

section \<open>QVSPSocket: a VSP/BRSP byte stream over Bluetooth LE\<close>

text \<open>
  A shallow embedding of \<^verbatim>\<open>qvspsocket.cpp\<close> and \<^verbatim>\<open>qvspsocket.h\<close>. The member
  fields of the class are a record, every method and every lambda connected to a Qt
  signal is a function from the record to the new record and the list of the calls it
  makes, in the order it makes them: calls on the controller and the service, calls into
  the \<^verbatim>\<open>QIODevice\<close> base class, and signals emitted. A call through a null
  \<^verbatim>\<open>service\<close> or \<^verbatim>\<open>controller\<close> pointer is the value \<open>Inl NullPointerDereference\<close>.

  Sizes are \<open>int\<close>. The C++ adds the sizes in \<^verbatim>\<open>qint64\<close>: the sizes of the
  buffers and of a notification are \<^verbatim>\<open>int\<close>s and the length given to
  \<^verbatim>\<open>writeData\<close> is the length of the bytes that exist, so no sum wraps around.
  The narrowing \<^verbatim>\<open>int(len)\<close> in \<^verbatim>\<open>writeData\<close> is reached only with
  \<open>len < maxBufferSize\<close>, an \<^verbatim>\<open>int\<close>, and \<^verbatim>\<open>int(res)\<close> in
  \<^verbatim>\<open>readData\<close> is at most the size of the read buffer: neither changes the value.

  The source creates the controller with \<^verbatim>\<open>QSharedPointer::create\<close> and drops it
  with \<^verbatim>\<open>reset()\<close>; the lambdas capture \<^verbatim>\<open>this\<close> only, so the controller
  and the service object created as its child are destroyed when the pointer is
  reset or assigned again, and their signals stop.
\<close>

subsection \<open>Constants of the protocol\<close>

type_synonym byte = "8 word"
type_synonym QByteArray = "byte list"
type_synonym QBluetoothUuid = string
type_synonym QBluetoothDeviceInfo = string

datatype Manufacturer = Laird | BlueRadios

definition VSP_SERVICE :: "QBluetoothUuid \<rightharpoonup> Manufacturer" where
  "VSP_SERVICE =
     [''569a1101-b87f-490c-92cb-11ba5ea5167c'' \<mapsto> Laird,
      ''da2b84f1-6279-48de-bdc0-afbea0226079'' \<mapsto> BlueRadios]"

record Characteristic =
  MODEM_IN :: QBluetoothUuid
  MODEM_OUT :: QBluetoothUuid
  RX_FIFO :: QBluetoothUuid
  TX_FIFO :: QBluetoothUuid

fun CHARACTERISTIC :: "Manufacturer \<Rightarrow> Characteristic" where
  "CHARACTERISTIC Laird =
     \<lparr>MODEM_IN = ''569a2003-b87f-490c-92cb-11ba5ea5167c'',
      MODEM_OUT = ''569a2002-b87f-490c-92cb-11ba5ea5167c'',
      RX_FIFO = ''569a2001-b87f-490c-92cb-11ba5ea5167c'',
      TX_FIFO = ''569a2000-b87f-490c-92cb-11ba5ea5167c''\<rparr>"
| "CHARACTERISTIC BlueRadios =
     \<lparr>MODEM_IN = ''0A1934F5-24B8-4F13-9842-37BB167C6AFF'',
      MODEM_OUT = ''FDD6B4D3-046D-4330-BDEC-1FD0C90CB43B'',
      RX_FIFO = ''BF03260C-7205-4C25-AF43-93B1C299D159'',
      TX_FIFO = ''18CDA784-4BD3-4370-85BB-BFED91EC86AF''\<rparr>"

definition BRSP_MODE_CHARACTERISTIC :: QBluetoothUuid where
  "BRSP_MODE_CHARACTERISTIC = ''A87988B9-694C-479C-900E-95DFA6C00A24''"

definition BRSP_MODE_DATA :: QByteArray where
  "BRSP_MODE_DATA = [1]"

definition DESC_NOTIFY_ON :: QByteArray where
  "DESC_NOTIFY_ON = [1, 0]"

definition DESC_NOTIFY_OFF :: QByteArray where
  "DESC_NOTIFY_OFF = [0, 0]"

fun MODEM_SET_BIT :: "Manufacturer \<Rightarrow> QByteArray" where
  "MODEM_SET_BIT Laird = [1]"
| "MODEM_SET_BIT BlueRadios = [0]"

fun MODEM_CLEAR_BIT :: "Manufacturer \<Rightarrow> QByteArray" where
  "MODEM_CLEAR_BIT Laird = [0]"
| "MODEM_CLEAR_BIT BlueRadios = [1]"

definition PACKET_SIZE :: int where
  "PACKET_SIZE = 20"

subsection \<open>The transport's objects\<close>

text \<open>
  A characteristic handle is the invalid one (default constructed, or returned for a
  UUID the service does not have) or the handle of the characteristic with a UUID. The
  only descriptor the code asks for is the Client Characteristic Configuration of a
  characteristic. What a discovered service offers is the list of its characteristics
  and the list of those that carry this descriptor. The source asks \<^verbatim>\<open>isValid()\<close>
  only of a handle the service has just returned.
\<close>

datatype QLowEnergyCharacteristic = InvalidCharacteristic | ValidCharacteristic QBluetoothUuid

datatype QLowEnergyDescriptor = InvalidDescriptor | ClientCharacteristicConfiguration QBluetoothUuid

record service_details =
  characteristics :: "QBluetoothUuid list"
  notifiable :: "QBluetoothUuid list"

definition characteristic :: "service_details \<Rightarrow> QBluetoothUuid \<Rightarrow> QLowEnergyCharacteristic" where
  "characteristic d u =
     (if u \<in> set (characteristics d) then ValidCharacteristic u else InvalidCharacteristic)"

definition descriptor :: "service_details \<Rightarrow> QLowEnergyCharacteristic \<Rightarrow> QLowEnergyDescriptor" where
  "descriptor d c =
     (case c of
        InvalidCharacteristic \<Rightarrow> InvalidDescriptor
      | ValidCharacteristic u \<Rightarrow>
          if u \<in> set (notifiable d) then ClientCharacteristicConfiguration u
          else InvalidDescriptor)"

datatype SocketState = UnconnectedState | ConnectingState | ConnectedState | ClosingState

datatype ServiceError =
  NoError | OperationError | CharacteristicWriteError | DescriptorWriteError
  | UnknownError | CharacteristicReadError | DescriptorReadError

datatype ServiceState = InvalidService | DiscoveryRequired | DiscoveringServices | ServiceDiscovered

datatype OpenMode = NotOpen | ReadWrite

subsection \<open>Calls and signals\<close>

text \<open>
  The argument of \<^verbatim>\<open>setErrorString\<close>: a translated literal, a translated literal
  with its \<^verbatim>\<open>%1\<close> argument, or the controller's own error text.
\<close>

datatype QString = Tr string | TrArg string int | ControllerErrorString

datatype signal =
  Sig_bytesWritten int
  | Sig_stateChanged SocketState
  | Sig_connected
  | Sig_disconnected
  | Sig_error ServiceError
  | Sig_readyRead
  | Sig_readChannelFinished

datatype effect =
  Controller_connectToDevice QBluetoothDeviceInfo
  | Controller_disconnectFromDevice
  | Controller_discoverServices
  | Service_discoverDetails QBluetoothUuid
  | Service_writeCharacteristic QLowEnergyCharacteristic QByteArray
  | Service_readCharacteristic QLowEnergyCharacteristic
  | Service_writeDescriptor QLowEnergyDescriptor QByteArray
  | QIODevice_open OpenMode
  | QIODevice_close
  | SetErrorString QString
  | Emit signal

datatype fault = NullPointerDereference

subsection \<open>The socket\<close>

text \<open>
  The fields of \<^verbatim>\<open>QVSPSocket\<close>; \<open>vsp_state\<close> and \<open>vsp_error\<close> are
  \<^verbatim>\<open>_state\<close> and \<^verbatim>\<open>_error\<close>. The controller is held by the device it was
  created for, the service object by the UUID it was created for. \<open>openMode\<close> is the
  open mode of the \<^verbatim>\<open>QIODevice\<close> base, which \<^verbatim>\<open>isOpen()\<close> reads.

  The lambdas are connected at run time, so the record counts the connections:
  \<open>serviceSlots\<close> times the \<^verbatim>\<open>error\<close> and \<^verbatim>\<open>stateChanged\<close> lambdas on the
  current service object, \<open>detailSlots\<close> times the four lambdas connected once the
  service details are discovered. The three lambdas on the controller are connected
  once, when the controller is created.
\<close>

record vsp =
  vsp_state :: SocketState
  vsp_error :: ServiceError
  m :: Manufacturer
  controller :: "QBluetoothDeviceInfo option"
  service :: "QBluetoothUuid option"
  rxFifoChar :: QLowEnergyCharacteristic
  txFifoChar :: QLowEnergyCharacteristic
  modemInChar :: QLowEnergyCharacteristic
  modemOutChar :: QLowEnergyCharacteristic
  brspModeChar :: QLowEnergyCharacteristic
  txFifoNotify :: QLowEnergyDescriptor
  modemOutNotify :: QLowEnergyDescriptor
  cts :: bool
  rts :: bool
  maxBufferSize :: int
  readBuffer :: QByteArray
  writeBuffer :: QByteArray
  openMode :: OpenMode
  serviceSlots :: nat
  detailSlots :: nat

type_synonym result = "fault + vsp \<times> effect list"

definition QVSPSocket :: "int \<Rightarrow> vsp" where
  "QVSPSocket maxBufferSize' =
     \<lparr>vsp_state = UnconnectedState, vsp_error = NoError, m = Laird,
      controller = None, service = None,
      rxFifoChar = InvalidCharacteristic, txFifoChar = InvalidCharacteristic,
      modemInChar = InvalidCharacteristic, modemOutChar = InvalidCharacteristic,
      brspModeChar = InvalidCharacteristic,
      txFifoNotify = InvalidDescriptor, modemOutNotify = InvalidDescriptor,
      cts = False, rts = False, maxBufferSize = maxBufferSize',
      readBuffer = [], writeBuffer = [], openMode = NotOpen,
      serviceSlots = 0, detailSlots = 0\<rparr>"

definition QVSPSocket_default :: vsp where
  "QVSPSocket_default = QVSPSocket 4096"

definition isOpen :: "vsp \<Rightarrow> bool" where
  "isOpen s = (openMode s \<noteq> NotOpen)"

definition isValid :: "QLowEnergyCharacteristic \<Rightarrow> bool" where
  "isValid c = (c \<noteq> InvalidCharacteristic)"

definition isValidDescriptor :: "QLowEnergyDescriptor \<Rightarrow> bool" where
  "isValidDescriptor d = (d \<noteq> InvalidDescriptor)"

text \<open>A call \<^verbatim>\<open>service->f(...)\<close>, respectively \<^verbatim>\<open>controller->f(...)\<close>.\<close>

definition with_service :: "vsp \<Rightarrow> vsp \<times> effect list \<Rightarrow> result" where
  "with_service s r = (if service s = None then Inl NullPointerDereference else Inr r)"

definition with_controller :: "vsp \<Rightarrow> vsp \<times> effect list \<Rightarrow> result" where
  "with_controller s r = (if controller s = None then Inl NullPointerDereference else Inr r)"

text \<open>Sequencing: the second step runs in the state the first one left, unless it crashed.\<close>

definition then_do :: "result \<Rightarrow> (vsp \<Rightarrow> result) \<Rightarrow> result" where
  "then_do r f =
     (case r of
        Inl e \<Rightarrow> Inl e
      | Inr (s, out1) \<Rightarrow>
          (case f s of Inl e \<Rightarrow> Inl e | Inr (s', out2) \<Rightarrow> Inr (s', out1 @ out2)))"

subsection \<open>Methods and lambdas\<close>

text \<open>
  \<^verbatim>\<open>writeInternal\<close> writes the chunk, emits \<^verbatim>\<open>bytesWritten\<close> and only
  then removes the chunk from the write buffer. The slots connected to
  \<^verbatim>\<open>bytesWritten\<close> run inside the emit, on the socket whose buffer still holds the
  chunk; what they do to the socket is the parameter \<open>slot\<close>. The other emits of
  the source are entries of the effect list: the slots connected to them are taken to
  return without a call of the socket's methods.
\<close>

definition writeInternal_slot :: "(vsp \<Rightarrow> result) \<Rightarrow> vsp \<Rightarrow> result" where
  "writeInternal_slot slot s =
     (if cts s then
        (let buffer = take (nat PACKET_SIZE) (writeBuffer s) in
         if buffer \<noteq> [] then
           then_do
             (then_do
                (with_service s
                   (s, [Service_writeCharacteristic (rxFifoChar s) buffer,
                        Emit (Sig_bytesWritten (int (length buffer)))]))
                slot)
             (\<lambda>s1. Inr (s1\<lparr>writeBuffer := drop (length buffer) (writeBuffer s1)\<rparr>, []))
         else Inr (s, []))
      else Inr (s, []))"

text \<open>No slot connected to \<^verbatim>\<open>bytesWritten\<close> calls back into the socket.\<close>

definition no_slot :: "vsp \<Rightarrow> result" where
  "no_slot s = Inr (s, [])"

definition writeInternal :: "vsp \<Rightarrow> result" where
  "writeInternal s = writeInternal_slot no_slot s"

text \<open>
  \<^verbatim>\<open>connectToDevice\<close>. Assigning the new controller destroys the previous one
  and, with it, the service object created as its child; \<^verbatim>\<open>service\<close> is a
  \<^verbatim>\<open>QPointer\<close> and reads as null from then on.
\<close>

definition connectToDevice :: "vsp \<Rightarrow> QBluetoothDeviceInfo \<Rightarrow> vsp \<times> effect list" where
  "connectToDevice s remoteDeviceInfo =
     (if isOpen s then (s, [])
      else
        (s\<lparr>controller := Some remoteDeviceInfo,
           service := (if controller s = None then service s else None),
           serviceSlots := (if controller s = None then serviceSlots s else 0),
           detailSlots := (if controller s = None then detailSlots s else 0),
           vsp_state := ConnectingState\<rparr>,
         [Controller_connectToDevice remoteDeviceInfo,
          Emit (Sig_stateChanged ConnectingState)]))"

definition onControllerError :: "vsp \<Rightarrow> result" where
  "onControllerError s =
     with_controller s
       (s\<lparr>vsp_error := OperationError\<rparr>,
        [SetErrorString ControllerErrorString, Emit (Sig_error OperationError)])"

definition onConnected :: "vsp \<Rightarrow> result" where
  "onConnected s = with_controller s (s, [Controller_discoverServices])"

text \<open>
  \<^verbatim>\<open>discoveryFinished\<close>, with the list \<^verbatim>\<open>controller->services()\<close>. A service
  object created here is new: nothing is connected to it yet.
\<close>

definition onDiscoveryFinished :: "vsp \<Rightarrow> QBluetoothUuid list \<Rightarrow> result" where
  "onDiscoveryFinished s services =
     (if controller s = None then Inl NullPointerDereference
      else
        (let s1 =
           (case find (\<lambda>uuid. VSP_SERVICE uuid \<noteq> None) services of
              None \<Rightarrow> s
            | Some uuid \<Rightarrow>
                s\<lparr>service := Some uuid,
                  m := (case VSP_SERVICE uuid of Some x \<Rightarrow> x | None \<Rightarrow> m s),
                  serviceSlots := 0, detailSlots := 0\<rparr>)
         in
         case service s1 of
           None \<Rightarrow>
             Inr (s1\<lparr>vsp_error := OperationError\<rparr>,
                  [SetErrorString (Tr ''No VSP service found''), Emit (Sig_error OperationError)])
         | Some uuid \<Rightarrow>
             Inr (s1\<lparr>serviceSlots := serviceSlots s1 + 1\<rparr>, [Service_discoverDetails uuid])))"

fun serviceErrorString :: "ServiceError \<Rightarrow> effect list" where
  "serviceErrorString OperationError = [SetErrorString (Tr ''Operation error'')]"
| "serviceErrorString CharacteristicWriteError = [SetErrorString (Tr ''Characteristic write error'')]"
| "serviceErrorString DescriptorWriteError = [SetErrorString (Tr ''Descriptor write error'')]"
| "serviceErrorString UnknownError = [SetErrorString (Tr ''Unknown error'')]"
| "serviceErrorString CharacteristicReadError = [SetErrorString (Tr ''Characteristic read error'')]"
| "serviceErrorString DescriptorReadError = [SetErrorString (Tr ''Descriptor read error'')]"
| "serviceErrorString NoError = []"

definition onServiceError :: "vsp \<Rightarrow> ServiceError \<Rightarrow> result" where
  "onServiceError s err =
     Inr (s\<lparr>vsp_error := err\<rparr>, serviceErrorString err @ [Emit (Sig_error err)])"

definition cannotRetrieve :: "vsp \<Rightarrow> result" where
  "cannotRetrieve s =
     Inr (s\<lparr>vsp_error := OperationError\<rparr>,
          [SetErrorString (Tr ''Cannot retrieve the VSP service characteristics''),
           Emit (Sig_error OperationError)])"

definition onStateChanged :: "vsp \<Rightarrow> ServiceState \<Rightarrow> service_details \<Rightarrow> result" where
  "onStateChanged s newState d =
     (if newState \<noteq> ServiceDiscovered then Inr (s, [])
      else if service s = None then Inl NullPointerDereference
      else
        (let s1 = s\<lparr>rxFifoChar := characteristic d (RX_FIFO (CHARACTERISTIC (m s))),
                    txFifoChar := characteristic d (TX_FIFO (CHARACTERISTIC (m s))),
                    modemInChar := characteristic d (MODEM_IN (CHARACTERISTIC (m s))),
                    modemOutChar := characteristic d (MODEM_OUT (CHARACTERISTIC (m s)))\<rparr>
         in
         if \<not> isValid (rxFifoChar s1) \<or> \<not> isValid (txFifoChar s1)
            \<or> \<not> isValid (modemInChar s1) \<or> \<not> isValid (modemOutChar s1)
         then cannotRetrieve s1
         else
           (let s2 = (if m s1 = BlueRadios
                      then s1\<lparr>brspModeChar := characteristic d BRSP_MODE_CHARACTERISTIC\<rparr>
                      else s1)
            in
            if m s1 = BlueRadios \<and> \<not> isValid (brspModeChar s2) then cannotRetrieve s2
            else
              (let s3 = s2\<lparr>txFifoNotify := descriptor d (txFifoChar s2),
                          modemOutNotify := descriptor d (modemOutChar s2)\<rparr>
               in
               if \<not> isValidDescriptor (txFifoNotify s3) \<or> \<not> isValidDescriptor (modemOutNotify s3)
               then
                 Inr (s3\<lparr>vsp_error := OperationError\<rparr>,
                      [SetErrorString (Tr ''Cannot detect VSP service notifications''),
                       Emit (Sig_error OperationError)])
               else
                 (let s4 = s3\<lparr>detailSlots := detailSlots s3 + 1\<rparr> in
                  if m s4 = BlueRadios
                  then Inr (s4, [Service_writeCharacteristic (brspModeChar s4) BRSP_MODE_DATA])
                  else Inr (s4, [Service_writeDescriptor (txFifoNotify s4) DESC_NOTIFY_ON]))))))"

definition onDescriptorWritten :: "vsp \<Rightarrow> QLowEnergyDescriptor \<Rightarrow> QByteArray \<Rightarrow> result" where
  "onDescriptorWritten s descr newValue =
     (if descr = txFifoNotify s \<and> newValue = DESC_NOTIFY_ON
      then with_service s (s, [Service_writeDescriptor (modemOutNotify s) DESC_NOTIFY_ON])
      else if descr = modemOutNotify s \<and> newValue = DESC_NOTIFY_ON
      then with_service s (s, [Service_writeCharacteristic (modemInChar s) (MODEM_SET_BIT (m s))])
      else Inr (s, []))"

definition onCharacteristicChanged :: "vsp \<Rightarrow> QLowEnergyCharacteristic \<Rightarrow> QByteArray \<Rightarrow> result" where
  "onCharacteristicChanged s info newValue =
     (if info = txFifoChar s then
        (if int (length (readBuffer s)) + int (length newValue) + 1 > maxBufferSize s then
           with_service s
             (s\<lparr>vsp_error := CharacteristicReadError\<rparr>,
              [Service_writeCharacteristic (modemInChar s) (MODEM_CLEAR_BIT (m s)),
               SetErrorString
                 (TrArg ''Internal read buffer overflow (max. size %1), data packet dropped''
                    (maxBufferSize s)),
               Emit (Sig_error CharacteristicReadError)])
         else
           (let s1 = s\<lparr>readBuffer := readBuffer s @ newValue\<rparr> in
            then_do
              (if int (length (readBuffer s1)) + PACKET_SIZE + 1 > maxBufferSize s1
               then with_service s1
                      (s1, [Service_writeCharacteristic (modemInChar s1) (MODEM_CLEAR_BIT (m s1))])
               else Inr (s1, []))
              (\<lambda>s2. Inr (s2, if isOpen s2 then [Emit Sig_readyRead] else []))))
      else if info = modemOutChar s then
        writeInternal (s\<lparr>cts := (newValue = MODEM_SET_BIT (m s))\<rparr>)
      else Inr (s, []))"

definition onCharacteristicRead :: "vsp \<Rightarrow> QLowEnergyCharacteristic \<Rightarrow> QByteArray \<Rightarrow> result" where
  "onCharacteristicRead s info val =
     (if info = modemOutChar s \<and> \<not> isOpen s then
        Inr (s\<lparr>cts := (val = MODEM_SET_BIT (m s)), openMode := ReadWrite,
               vsp_state := ConnectedState\<rparr>,
             [QIODevice_open ReadWrite, Emit (Sig_stateChanged ConnectedState), Emit Sig_connected]
             @ (if readBuffer s \<noteq> [] then [Emit Sig_readyRead] else []))
      else Inr (s, []))"

definition onCharacteristicWritten :: "vsp \<Rightarrow> QLowEnergyCharacteristic \<Rightarrow> QByteArray \<Rightarrow> result" where
  "onCharacteristicWritten s info val =
     (if info = rxFifoChar s then writeInternal s
      else if info = modemInChar s then
        (let s1 = s\<lparr>rts := (val = MODEM_SET_BIT (m s))\<rparr> in
         if rts s1 \<and> \<not> isOpen s1
         then with_service s1 (s1, [Service_readCharacteristic (modemOutChar s1)])
         else Inr (s1, []))
      else if info = brspModeChar s
      then with_service s (s, [Service_writeDescriptor (txFifoNotify s) DESC_NOTIFY_ON])
      else Inr (s, []))"

definition close :: "vsp \<Rightarrow> result" where
  "close s =
     (if \<not> isOpen s then Inr (s, [])
      else
        with_controller s
          (s\<lparr>vsp_state := UnconnectedState, openMode := NotOpen,
             controller := None, service := None, cts := False, rts := False,
             readBuffer := [], writeBuffer := [],
             serviceSlots := 0, detailSlots := 0\<rparr>,
           [Emit (Sig_stateChanged ClosingState), Emit Sig_readChannelFinished,
            Controller_disconnectFromDevice, QIODevice_close,
            Emit (Sig_stateChanged UnconnectedState), Emit Sig_disconnected]))"

definition unsetRTS :: "vsp \<Rightarrow> result" where
  "unsetRTS s =
     (if rts s
      then with_service s (s, [Service_writeCharacteristic (modemInChar s) (MODEM_CLEAR_BIT (m s))])
      else Inr (s, []))"

definition setRTS :: "vsp \<Rightarrow> result" where
  "setRTS s =
     (if \<not> rts s \<and> int (length (readBuffer s)) + PACKET_SIZE + 1 \<le> maxBufferSize s
      then with_service s (s, [Service_writeCharacteristic (modemInChar s) (MODEM_SET_BIT (m s))])
      else Inr (s, []))"

definition writeData_slot ::
  "(vsp \<Rightarrow> result) \<Rightarrow> vsp \<Rightarrow> QByteArray \<Rightarrow> fault + int \<times> vsp \<times> effect list" where
  "writeData_slot slot s data =
     (if \<not> isOpen s then
        Inr (- 1, s\<lparr>vsp_error := OperationError\<rparr>,
             [SetErrorString (Tr ''Cannot write while not connected''),
              Emit (Sig_error OperationError)])
      else if int (length (writeBuffer s)) + int (length data) + 1 > maxBufferSize s then
        Inr (- 1, s\<lparr>vsp_error := OperationError\<rparr>,
             [SetErrorString
                (TrArg ''Internal write buffer overflow (max. size %1), write failed''
                   (maxBufferSize s)),
              Emit (Sig_error OperationError)])
      else
        (case writeInternal_slot slot (s\<lparr>writeBuffer := writeBuffer s @ data\<rparr>) of
           Inl e \<Rightarrow> Inl e
         | Inr (s', out) \<Rightarrow> Inr (int (length data), s', out)))"

definition writeData :: "vsp \<Rightarrow> QByteArray \<Rightarrow> fault + int \<times> vsp \<times> effect list" where
  "writeData s data = writeData_slot no_slot s data"

text \<open>A slot that calls \<^verbatim>\<open>write(data)\<close> once, and does nothing when it runs again.\<close>

definition slot_writes :: "QByteArray \<Rightarrow> vsp \<Rightarrow> result" where
  "slot_writes data s =
     (case writeData s data of Inl e \<Rightarrow> Inl e | Inr (res, s', out) \<Rightarrow> Inr (s', out))"

subsection \<open>Delivery of the transport's signals\<close>

datatype tevent =
  Ctl_error
  | Ctl_connected
  | Ctl_discoveryFinished "QBluetoothUuid list"
  | Svc_error ServiceError
  | Svc_stateChanged ServiceState service_details
  | Svc_descriptorWritten QLowEnergyDescriptor QByteArray
  | Svc_characteristicChanged QLowEnergyCharacteristic QByteArray
  | Svc_characteristicRead QLowEnergyCharacteristic QByteArray
  | Svc_characteristicWritten QLowEnergyCharacteristic QByteArray

text \<open>A signal runs every lambda connected to it, once per connection.\<close>

fun repeat_slot :: "nat \<Rightarrow> (vsp \<Rightarrow> result) \<Rightarrow> vsp \<Rightarrow> result" where
  "repeat_slot 0 h s = Inr (s, [])"
| "repeat_slot (Suc n) h s = then_do (h s) (repeat_slot n h)"

fun deliver :: "vsp \<Rightarrow> tevent \<Rightarrow> result" where
  "deliver s Ctl_error = (if controller s = None then Inr (s, []) else onControllerError s)"
| "deliver s Ctl_connected = (if controller s = None then Inr (s, []) else onConnected s)"
| "deliver s (Ctl_discoveryFinished services) =
     (if controller s = None then Inr (s, []) else onDiscoveryFinished s services)"
| "deliver s (Svc_error err) =
     (if service s = None then Inr (s, [])
      else repeat_slot (serviceSlots s) (\<lambda>s. onServiceError s err) s)"
| "deliver s (Svc_stateChanged newState d) =
     (if service s = None then Inr (s, [])
      else repeat_slot (serviceSlots s) (\<lambda>s. onStateChanged s newState d) s)"
| "deliver s (Svc_descriptorWritten descr newValue) =
     (if service s = None then Inr (s, [])
      else repeat_slot (detailSlots s) (\<lambda>s. onDescriptorWritten s descr newValue) s)"
| "deliver s (Svc_characteristicChanged info newValue) =
     (if service s = None then Inr (s, [])
      else repeat_slot (detailSlots s) (\<lambda>s. onCharacteristicChanged s info newValue) s)"
| "deliver s (Svc_characteristicRead info val) =
     (if service s = None then Inr (s, [])
      else repeat_slot (detailSlots s) (\<lambda>s. onCharacteristicRead s info val) s)"
| "deliver s (Svc_characteristicWritten info val) =
     (if service s = None then Inr (s, [])
      else repeat_slot (detailSlots s) (\<lambda>s. onCharacteristicWritten s info val) s)"

subsection \<open>Runs\<close>

text \<open>
  What happens to a socket: a call of one of its methods, or a signal of the transport
  delivered by the event loop. The values \<^verbatim>\<open>readData\<close> and \<^verbatim>\<open>writeData\<close>
  return are kept in the log of a run.

  \<^verbatim>\<open>readData\<close> calls \<^verbatim>\<open>processEvents\<close>, which runs whatever is pending at the
  call before the buffer is read: signals of the transport and calls of the socket's
  methods that the application has queued, here the list \<open>pending\<close>.
  \<open>maxlen\<close> is a \<open>nat\<close>: \<^verbatim>\<open>QIODevice::read\<close> refuses a negative length.
\<close>

datatype event =
  Call_connectToDevice QBluetoothDeviceInfo
  | Call_close
  | Call_readData nat "event list"
  | Call_writeData QByteArray
  | Call_setRTS
  | Call_unsetRTS
  | Transport tevent

datatype logged = Did effect | ReadReturned int QByteArray | WriteReturned int

fun readData :: "vsp \<Rightarrow> nat \<Rightarrow> event list \<Rightarrow> fault + (int \<times> QByteArray) \<times> vsp \<times> logged list"
  and step :: "vsp \<Rightarrow> event \<Rightarrow> fault + vsp \<times> logged list"
  and run :: "vsp \<Rightarrow> event list \<Rightarrow> fault + vsp \<times> logged list"
where
  "readData s maxlen pending =
     (if \<not> isOpen s then
        Inr ((- 1, []), s\<lparr>vsp_error := OperationError\<rparr>,
             [Did (SetErrorString (Tr ''Cannot read while not connected'')),
              Did (Emit (Sig_error OperationError))])
      else
        (case run s pending of
           Inl e \<Rightarrow> Inl e
         | Inr (s1, log1) \<Rightarrow>
             (let res = take maxlen (readBuffer s1);
                  s2 = s1\<lparr>readBuffer := drop (length res) (readBuffer s1)\<rparr>
              in
              if \<not> rts s2 \<and> int (length (readBuffer s2)) + PACKET_SIZE + 1 \<le> maxBufferSize s2
              then
                (if service s2 = None then Inl NullPointerDereference
                 else Inr ((int (length res), res), s2,
                           log1 @ [Did (Service_writeCharacteristic (modemInChar s2)
                                          (MODEM_SET_BIT (m s2)))]))
              else Inr ((int (length res), res), s2, log1))))"
| "step s (Call_connectToDevice remoteDeviceInfo) =
     (case connectToDevice s remoteDeviceInfo of (s', out) \<Rightarrow> Inr (s', map Did out))"
| "step s Call_close =
     (case close s of Inl e \<Rightarrow> Inl e | Inr (s', out) \<Rightarrow> Inr (s', map Did out))"
| "step s (Call_readData maxlen pending) =
     (case readData s maxlen pending of
        Inl e \<Rightarrow> Inl e
      | Inr ((res, data), s', log) \<Rightarrow> Inr (s', log @ [ReadReturned res data]))"
| "step s (Call_writeData data) =
     (case writeData s data of
        Inl e \<Rightarrow> Inl e
      | Inr (res, s', out) \<Rightarrow> Inr (s', map Did out @ [WriteReturned res]))"
| "step s Call_setRTS =
     (case setRTS s of Inl e \<Rightarrow> Inl e | Inr (s', out) \<Rightarrow> Inr (s', map Did out))"
| "step s Call_unsetRTS =
     (case unsetRTS s of Inl e \<Rightarrow> Inl e | Inr (s', out) \<Rightarrow> Inr (s', map Did out))"
| "step s (Transport e) =
     (case deliver s e of Inl e \<Rightarrow> Inl e | Inr (s', out) \<Rightarrow> Inr (s', map Did out))"
| "run s [] = Inr (s, [])"
| "run s (e # es) =
     (case step s e of
        Inl f \<Rightarrow> Inl f
      | Inr (s', log1) \<Rightarrow>
          (case run s' es of Inl f \<Rightarrow> Inl f | Inr (s'', log2) \<Rightarrow> Inr (s'', log1 @ log2)))"

declare readData.simps [simp del]

subsection \<open>Reading a log\<close>

text \<open>The values written to one characteristic, in the order of the calls.\<close>

fun written_to :: "QLowEnergyCharacteristic \<Rightarrow> effect list \<Rightarrow> QByteArray list" where
  "written_to c [] = []"
| "written_to c (Service_writeCharacteristic c' v # out) =
     (if c' = c then v # written_to c out else written_to c out)"
| "written_to c (_ # out) = written_to c out"

subsection \<open>Example sockets\<close>

text \<open>
  A Laird module: the service with the four characteristics, notifications on TX FIFO
  and on MODEM OUT, and the run that takes a new socket through the handshake.
\<close>

definition laird_details :: service_details where
  "laird_details =
     \<lparr>characteristics = [RX_FIFO (CHARACTERISTIC Laird), TX_FIFO (CHARACTERISTIC Laird),
                         MODEM_IN (CHARACTERISTIC Laird), MODEM_OUT (CHARACTERISTIC Laird)],
      notifiable = [TX_FIFO (CHARACTERISTIC Laird), MODEM_OUT (CHARACTERISTIC Laird)]\<rparr>"

definition laird_handshake :: "event list" where
  "laird_handshake =
     [Call_connectToDevice ''dev'',
      Transport Ctl_connected,
      Transport (Ctl_discoveryFinished [''1800'', ''569a1101-b87f-490c-92cb-11ba5ea5167c'']),
      Transport (Svc_stateChanged DiscoveringServices laird_details),
      Transport (Svc_stateChanged ServiceDiscovered laird_details),
      Transport (Svc_descriptorWritten (ClientCharacteristicConfiguration (TX_FIFO (CHARACTERISTIC Laird))) DESC_NOTIFY_ON),
      Transport (Svc_descriptorWritten (ClientCharacteristicConfiguration (MODEM_OUT (CHARACTERISTIC Laird))) DESC_NOTIFY_ON),
      Transport (Svc_characteristicWritten (ValidCharacteristic (MODEM_IN (CHARACTERISTIC Laird))) [1]),
      Transport (Svc_characteristicRead (ValidCharacteristic (MODEM_OUT (CHARACTERISTIC Laird))) [1])]"

definition laird_connected :: vsp where
  "laird_connected =
     \<lparr>vsp_state = ConnectedState, vsp_error = NoError, m = Laird,
      controller = Some ''dev'',
      service = Some ''569a1101-b87f-490c-92cb-11ba5ea5167c'',
      rxFifoChar = ValidCharacteristic (RX_FIFO (CHARACTERISTIC Laird)),
      txFifoChar = ValidCharacteristic (TX_FIFO (CHARACTERISTIC Laird)),
      modemInChar = ValidCharacteristic (MODEM_IN (CHARACTERISTIC Laird)),
      modemOutChar = ValidCharacteristic (MODEM_OUT (CHARACTERISTIC Laird)),
      brspModeChar = InvalidCharacteristic,
      txFifoNotify = ClientCharacteristicConfiguration (TX_FIFO (CHARACTERISTIC Laird)),
      modemOutNotify = ClientCharacteristicConfiguration (MODEM_OUT (CHARACTERISTIC Laird)),
      cts = True, rts = True, maxBufferSize = 4096, readBuffer = [],
      writeBuffer = [], openMode = ReadWrite, serviceSlots = 1, detailSlots = 1\<rparr>"

text \<open>
  The socket after \<^verbatim>\<open>connectToDevice\<close> alone; after the handshake with the
  confirmation of a later RTS clear; with a buffer of 21 bytes that holds five of them;
  and after \<^verbatim>\<open>close\<close>.
\<close>

definition laird_connecting :: vsp where
  "laird_connecting = QVSPSocket_default\<lparr>controller := Some ''dev'', vsp_state := ConnectingState\<rparr>"

definition laird_paused :: vsp where
  "laird_paused = laird_connected\<lparr>rts := False\<rparr>"

definition laird_closed :: vsp where
  "laird_closed =
     laird_connected\<lparr>vsp_state := UnconnectedState, openMode := NotOpen, controller := None,
       service := None, cts := False, rts := False, serviceSlots := 0, detailSlots := 0\<rparr>"

definition laird_full :: vsp where
  "laird_full = laird_paused\<lparr>maxBufferSize := 21, readBuffer := [7, 7, 7, 7, 7]\<rparr>"

text \<open>
  A socket with a buffer of 40 bytes after the handshake and a notification of 15
  bytes, the run that leads to it, and a notification of 30 bytes.
\<close>

definition laird_half_run :: "event list" where
  "laird_half_run =
     laird_handshake @
     [Transport (Svc_characteristicChanged (ValidCharacteristic (TX_FIFO (CHARACTERISTIC Laird)))
                   [1, 2, 3, 4, 5, 6, 7, 8, 9, 10, 11, 12, 13, 14, 15])]"

definition laird_half :: vsp where
  "laird_half =
     laird_connected\<lparr>maxBufferSize := 40,
       readBuffer := [1, 2, 3, 4, 5, 6, 7, 8, 9, 10, 11, 12, 13, 14, 15]\<rparr>"


subsection \<open>The bound on the read buffer\<close>

definition rb_bounded :: "vsp \<Rightarrow> bool" where
  "rb_bounded s = (int (length (readBuffer s)) < maxBufferSize s)"


text \<open>The run that leads to the socket with the 21 byte buffer.\<close>

definition laird_full_run :: "event list" where
  "laird_full_run =
     laird_handshake @
     [Transport (Svc_characteristicChanged (ValidCharacteristic (TX_FIFO (CHARACTERISTIC Laird))) [7, 7, 7, 7, 7]),
      Transport (Svc_characteristicWritten (ValidCharacteristic (MODEM_IN (CHARACTERISTIC Laird))) [0])]"

subsection \<open>Waiting for the mode switch\<close>

text \<open>
  The handles a socket holds. A service resolves for a manufacturer when it has the
  characteristics and the two notification descriptors the handshake asks for.
\<close>

definition handles ::
  "vsp \<Rightarrow> QLowEnergyCharacteristic list \<times> QLowEnergyDescriptor list" where
  "handles s =
     ([rxFifoChar s, txFifoChar s, modemInChar s, modemOutChar s, brspModeChar s],
      [txFifoNotify s, modemOutNotify s])"

definition resolves :: "service_details \<Rightarrow> Manufacturer \<Rightarrow> bool" where
  "resolves d mf =
     (RX_FIFO (CHARACTERISTIC mf) \<in> set (characteristics d)
      \<and> TX_FIFO (CHARACTERISTIC mf) \<in> set (characteristics d)
      \<and> MODEM_IN (CHARACTERISTIC mf) \<in> set (characteristics d)
      \<and> MODEM_OUT (CHARACTERISTIC mf) \<in> set (characteristics d)
      \<and> (mf = BlueRadios \<longrightarrow> BRSP_MODE_CHARACTERISTIC \<in> set (characteristics d))
      \<and> TX_FIFO (CHARACTERISTIC mf) \<in> set (notifiable d)
      \<and> MODEM_OUT (CHARACTERISTIC mf) \<in> set (notifiable d))"

text \<open>
  What can happen while the confirmation of a write to the characteristic \<open>c\<close> is
  awaited: any call of a method and any signal of the transport, except that
  confirmation itself and a second discovery of the service details, at the top of the
  run or pending at a \<^verbatim>\<open>readData\<close>.
\<close>

fun tevent_waits :: "QLowEnergyCharacteristic \<Rightarrow> tevent \<Rightarrow> bool" where
  "tevent_waits c (Svc_characteristicWritten info val) = (info \<noteq> c)"
| "tevent_waits c (Svc_stateChanged newState d) = (newState \<noteq> ServiceDiscovered)"
| "tevent_waits c _ = True"

fun waits :: "QLowEnergyCharacteristic \<Rightarrow> event \<Rightarrow> bool" where
  "waits c (Transport e) = tevent_waits c e"
| "waits c (Call_readData maxlen pending) = list_all (waits c) pending"
| "waits c _ = True"

text \<open>
  While waiting, the handles stay as they are and nothing is written to the TX FIFO
  descriptor.
\<close>

definition waiting :: "QLowEnergyCharacteristic \<Rightarrow> vsp \<Rightarrow> effect list \<Rightarrow> vsp \<Rightarrow> bool" where
  "waiting c s out s' =
     (brspModeChar s = c \<longrightarrow>
        handles s' = handles s
        \<and> (txFifoNotify s \<noteq> modemOutNotify s \<longrightarrow>
             (\<forall>v. Service_writeDescriptor (txFifoNotify s) v \<notin> set out)))"

text \<open>
  A BlueRadios module, and the sockets for both manufacturers after the discovery of
  the services, after the discovery of the service details, and a short wait.
\<close>

definition blueradios_details :: service_details where
  "blueradios_details =
     \<lparr>characteristics =
        [BRSP_MODE_CHARACTERISTIC,
         RX_FIFO (CHARACTERISTIC BlueRadios), TX_FIFO (CHARACTERISTIC BlueRadios),
         MODEM_IN (CHARACTERISTIC BlueRadios), MODEM_OUT (CHARACTERISTIC BlueRadios)],
      notifiable = [TX_FIFO (CHARACTERISTIC BlueRadios), MODEM_OUT (CHARACTERISTIC BlueRadios)]\<rparr>"

definition blueradios_discovered :: vsp where
  "blueradios_discovered =
     QVSPSocket_default\<lparr>vsp_state := ConnectingState, m := BlueRadios, controller := Some ''dev'',
       service := Some ''da2b84f1-6279-48de-bdc0-afbea0226079'', serviceSlots := 1\<rparr>"

definition laird_discovered :: vsp where
  "laird_discovered =
     QVSPSocket_default\<lparr>vsp_state := ConnectingState, controller := Some ''dev'',
       service := Some ''569a1101-b87f-490c-92cb-11ba5ea5167c'', serviceSlots := 1\<rparr>"

definition blueradios_resolving :: vsp where
  "blueradios_resolving =
     blueradios_discovered
       \<lparr>rxFifoChar := ValidCharacteristic (RX_FIFO (CHARACTERISTIC BlueRadios)),
        txFifoChar := ValidCharacteristic (TX_FIFO (CHARACTERISTIC BlueRadios)),
        modemInChar := ValidCharacteristic (MODEM_IN (CHARACTERISTIC BlueRadios)),
        modemOutChar := ValidCharacteristic (MODEM_OUT (CHARACTERISTIC BlueRadios)),
        brspModeChar := ValidCharacteristic BRSP_MODE_CHARACTERISTIC,
        txFifoNotify := ClientCharacteristicConfiguration (TX_FIFO (CHARACTERISTIC BlueRadios)),
        modemOutNotify := ClientCharacteristicConfiguration (MODEM_OUT (CHARACTERISTIC BlueRadios)),
        detailSlots := 1\<rparr>"

definition blueradios_wait :: "event list" where
  "blueradios_wait =
     [Call_close,
      Transport (Svc_characteristicChanged
                   (ValidCharacteristic (TX_FIFO (CHARACTERISTIC BlueRadios))) [7])]"

subsection \<open>Runs of a connected socket\<close>

text \<open>
  What can happen to a socket while it stays connected: any call but \<^verbatim>\<open>close\<close>,
  and any signal of the transport but a second discovery of the service details, at
  the top of the run or pending at a \<^verbatim>\<open>readData\<close>.
\<close>

fun tevent_connected :: "tevent \<Rightarrow> bool" where
  "tevent_connected (Svc_stateChanged newState d) = (newState \<noteq> ServiceDiscovered)"
| "tevent_connected _ = True"

fun connected_event :: "event \<Rightarrow> bool" where
  "connected_event Call_close = False"
| "connected_event (Transport e) = tevent_connected e"
| "connected_event (Call_readData maxlen pending) = list_all connected_event pending"
| "connected_event _ = True"

text \<open>
  The byte arrays passed to \<^verbatim>\<open>writeData\<close> in a run, the calls in a log, the
  values the \<^verbatim>\<open>writeData\<close> calls returned, and the chunks written to a
  characteristic.
\<close>

fun submitted_by :: "event \<Rightarrow> QByteArray list" where
  "submitted_by (Call_writeData data) = [data]"
| "submitted_by (Call_readData maxlen pending) = concat (map submitted_by pending)"
| "submitted_by _ = []"

definition submitted :: "event list \<Rightarrow> QByteArray list" where
  "submitted es = concat (map submitted_by es)"

fun effects :: "logged list \<Rightarrow> effect list" where
  "effects [] = []"
| "effects (Did e # log) = e # effects log"
| "effects (_ # log) = effects log"

fun write_returns :: "logged list \<Rightarrow> int list" where
  "write_returns [] = []"
| "write_returns (WriteReturned res # log) = res # write_returns log"
| "write_returns (_ # log) = write_returns log"

definition rx_chunks :: "QLowEnergyCharacteristic \<Rightarrow> logged list \<Rightarrow> QByteArray list" where
  "rx_chunks c log = written_to c (effects log)"

text \<open>
  A step conserves the bytes to send: the chunks it writes to RX FIFO, followed by
  the write buffer it leaves, are the write buffer it found. A socket is sending when
  the peer has set CTS and the confirmation lambda is connected \<open>k\<close> times.
\<close>

definition conserving :: "vsp \<Rightarrow> effect list \<Rightarrow> vsp \<Rightarrow> bool" where
  "conserving s out s' =
     (rxFifoChar s \<noteq> modemInChar s \<longrightarrow>
        handles s' = handles s \<and> maxBufferSize s' = maxBufferSize s
        \<and> (isOpen s \<longrightarrow> isOpen s')
        \<and> concat (written_to (rxFifoChar s) out) @ writeBuffer s' = writeBuffer s
        \<and> (\<forall>c \<in> set (written_to (rxFifoChar s) out). length c \<le> 20))"

definition sending :: "QLowEnergyCharacteristic \<Rightarrow> nat \<Rightarrow> vsp \<Rightarrow> bool" where
  "sending r k s = (cts s \<and> service s \<noteq> None \<and> rxFifoChar s = r \<and> detailSlots s = k)"

text \<open>
  A socket is ready for the bytes \<open>bs\<close> when it is open, has its service object and
  has room for them in the write buffer. A run delivers the byte arrays \<open>sub\<close> when
  every \<^verbatim>\<open>writeData\<close> call returned the length of its array, every chunk written to
  RX FIFO has at most 20 bytes, and the chunks followed by the write buffer it leaves
  are the write buffer it found followed by the arrays.
\<close>

definition ready :: "vsp \<Rightarrow> QByteArray \<Rightarrow> bool" where
  "ready s bs =
     (isOpen s \<and> service s \<noteq> None \<and> rxFifoChar s \<noteq> modemInChar s
      \<and> int (length (writeBuffer s)) + int (length bs) + 1 \<le> maxBufferSize s)"

definition delivers :: "vsp \<Rightarrow> QByteArray list \<Rightarrow> vsp \<Rightarrow> logged list \<Rightarrow> bool" where
  "delivers s sub s' log =
     (isOpen s' \<and> service s' \<noteq> None
      \<and> handles s' = handles s \<and> maxBufferSize s' = maxBufferSize s
      \<and> write_returns log = map (int \<circ> length) sub
      \<and> concat (rx_chunks (rxFifoChar s) log) @ writeBuffer s' = writeBuffer s @ concat sub
      \<and> (\<forall>c \<in> set (rx_chunks (rxFifoChar s) log). length c \<le> 20))"

text \<open>A write of 25 bytes on the connected socket, and the socket after it.\<close>

definition long_write :: "event list" where
  "long_write =
     [Call_writeData [1, 2, 3, 4, 5, 6, 7, 8, 9, 10, 11, 12, 13, 14, 15, 16, 17, 18, 19, 20,
                      21, 22, 23, 24, 25]]"

definition laird_sending :: vsp where
  "laird_sending = laird_connected\<lparr>writeBuffer := [21, 22, 23, 24, 25]\<rparr>"

subsection \<open>Sockets that runs reach\<close>

text \<open>
  The \<^verbatim>\<open>QIODevice\<close> is open exactly in \<open>ConnectedState\<close>, an open socket has
  its service object, and a service object has its controller. \<open>ClosingState\<close> is
  entered and left inside \<^verbatim>\<open>close\<close>.
\<close>

definition well_formed :: "vsp \<Rightarrow> bool" where
  "well_formed s =
     ((isOpen s \<longleftrightarrow> vsp_state s = ConnectedState)
      \<and> (vsp_state s \<noteq> ClosingState)
      \<and> (isOpen s \<longrightarrow> service s \<noteq> None)
      \<and> (service s \<noteq> None \<longrightarrow> controller s \<noteq> None))"

definition served :: "vsp \<Rightarrow> bool" where
  "served s = (well_formed s \<and> service s \<noteq> None)"


section \<open>Properties\<close>

subsection \<open>Slots on \<^verbatim>\<open>bytesWritten\<close>\<close>

lemma writeInternal_eq:
  "writeInternal s =
     (if cts s then
        (let buffer = take (nat PACKET_SIZE) (writeBuffer s) in
         if buffer \<noteq> [] then
           with_service s
             (s\<lparr>writeBuffer := drop (length buffer) (writeBuffer s)\<rparr>,
              [Service_writeCharacteristic (rxFifoChar s) buffer,
               Emit (Sig_bytesWritten (int (length buffer)))])
         else Inr (s, []))
      else Inr (s, []))"
  by (simp add: writeInternal_def writeInternal_slot_def no_slot_def then_do_def
      with_service_def Let_def)

lemma writeData_eq:
  "writeData s data =
     (if \<not> isOpen s then
        Inr (- 1, s\<lparr>vsp_error := OperationError\<rparr>,
             [SetErrorString (Tr ''Cannot write while not connected''),
              Emit (Sig_error OperationError)])
      else if int (length (writeBuffer s)) + int (length data) + 1 > maxBufferSize s then
        Inr (- 1, s\<lparr>vsp_error := OperationError\<rparr>,
             [SetErrorString
                (TrArg ''Internal write buffer overflow (max. size %1), write failed''
                   (maxBufferSize s)),
              Emit (Sig_error OperationError)])
      else
        (case writeInternal (s\<lparr>writeBuffer := writeBuffer s @ data\<rparr>) of
           Inl e \<Rightarrow> Inl e
         | Inr (s', out) \<Rightarrow> Inr (int (length data), s', out)))"
  by (simp add: writeData_def writeData_slot_def writeInternal_def)

text \<open>
  Whatever the slots do: with CTS clear the send step does nothing, and \<^verbatim>\<open>writeData\<close>
  refuses on overflow and otherwise returns the length it was given, unless the send
  step crashes.
\<close>

lemma writeInternal_slot_without_cts:
  "\<not> cts s \<Longrightarrow> writeInternal_slot slot s = Inr (s, [])"
  by (simp add: writeInternal_slot_def)

lemma writeData_slot_returns:
  assumes "isOpen s"
  shows "(int (length (writeBuffer s)) + int (length data) + 1 > maxBufferSize s \<longrightarrow>
            writeData_slot slot s data =
              Inr (- 1, s\<lparr>vsp_error := OperationError\<rparr>,
                   [SetErrorString
                      (TrArg ''Internal write buffer overflow (max. size %1), write failed''
                         (maxBufferSize s)),
                    Emit (Sig_error OperationError)]))
       \<and> (int (length (writeBuffer s)) + int (length data) + 1 \<le> maxBufferSize s
            \<and> writeInternal_slot slot (s\<lparr>writeBuffer := writeBuffer s @ data\<rparr>) = Inr (s', out)
            \<longrightarrow> writeData_slot slot s data = Inr (int (length data), s', out))"
  using assms by (simp add: writeData_slot_def)

subsection \<open>The example sockets are reachable\<close>

lemmas eval_defs =
  QVSPSocket_default_def QVSPSocket_def laird_handshake_def laird_connected_def
  connectToDevice_def isOpen_def onConnected_def with_controller_def onDiscoveryFinished_def
  VSP_SERVICE_def onStateChanged_def laird_details_def characteristic_def descriptor_def
  isValid_def isValidDescriptor_def then_do_def onDescriptorWritten_def DESC_NOTIFY_ON_def
  with_service_def onCharacteristicWritten_def writeInternal_eq onCharacteristicRead_def
  unsetRTS_def setRTS_def close_def writeData_eq PACKET_SIZE_def laird_paused_def
  laird_connecting_def laird_closed_def laird_full_def onCharacteristicChanged_def

lemma laird_connected_reachable:
  "map_sum id fst (run QVSPSocket_default laird_handshake) = Inr laird_connected"
  by (simp add: eval_defs)

lemma laird_paused_reachable:
  "map_sum id fst (run laird_connected
      [Call_unsetRTS,
       Transport (Svc_characteristicWritten (ValidCharacteristic (MODEM_IN (CHARACTERISTIC Laird))) [0])])
   = Inr laird_paused"
  by (simp add: eval_defs)

lemma laird_half_reachable:
  "map_sum id fst (run (QVSPSocket 40) laird_half_run) = Inr laird_half"
  by (simp add: eval_defs laird_half_run_def laird_half_def)

lemma laird_full_reachable:
  "map_sum id fst (run (QVSPSocket 21) laird_full_run) = Inr laird_full"
  by (simp add: eval_defs laird_full_run_def)

subsection \<open>The send step\<close>

lemma take_drop_min: "take n xs @ drop (min (length xs) n) xs = xs"
  by (cases "n \<le> length xs") (simp_all add: min_def)

lemma writeInternal_cases:
  assumes "writeInternal s = Inr (s', out)"
  shows "(s' = s \<and> out = [])
       \<or> (cts s \<and> service s \<noteq> None \<and> take 20 (writeBuffer s) \<noteq> []
          \<and> s' = s\<lparr>writeBuffer := drop (length (take 20 (writeBuffer s))) (writeBuffer s)\<rparr>
          \<and> out = [Service_writeCharacteristic (rxFifoChar s) (take 20 (writeBuffer s)),
                     Emit (Sig_bytesWritten (int (length (take 20 (writeBuffer s)))))])"
  using assms
  by (auto simp add: writeInternal_eq with_service_def PACKET_SIZE_def Let_def split: if_splits)

lemma writeInternal_total:
  "service s \<noteq> None \<Longrightarrow> \<exists>s' out. writeInternal s = Inr (s', out)"
  by (auto simp add: writeInternal_eq with_service_def Let_def)

lemma writeInternal_conserves:
  assumes "writeInternal s = Inr (s', out)"
  shows "concat (written_to (rxFifoChar s) out) @ writeBuffer s' = writeBuffer s"
  using writeInternal_cases [OF assms] by (auto simp add: take_drop_min)

subsection \<open>Connecting and closing\<close>

text \<open>
  C10: \<^verbatim>\<open>connectToDevice\<close> on an open socket returns at once: it makes no call,
  emits nothing, reports no error and leaves every field as it was.
\<close>

theorem connectToDevice_while_open:
  "isOpen s \<Longrightarrow> connectToDevice s remoteDeviceInfo = (s, [])"
  by (simp add: connectToDevice_def)

theorem connectToDevice_while_open_witness:
  "isOpen laird_connected \<and> connectToDevice laird_connected ''other'' = (laird_connected, [])"
  using connectToDevice_while_open [of laird_connected "''other''"]
  by (simp add: isOpen_def laird_connected_def)

text \<open>
  C3, as stated, fails: \<^verbatim>\<open>close\<close> returns at once unless the socket is open, and
  the socket is opened only when the handshake completes. Called on the socket that
  \<^verbatim>\<open>connectToDevice\<close> has just put into \<open>ConnectingState\<close>, it requests no
  disconnect and the state stays \<open>ConnectingState\<close>.
\<close>

theorem close_while_connecting_counterexample:
  "connectToDevice QVSPSocket_default ''dev'' =
     (laird_connecting,
      [Controller_connectToDevice ''dev'', Emit (Sig_stateChanged ConnectingState)])
   \<and> vsp_state laird_connecting = ConnectingState
   \<and> close laird_connecting = Inr (laird_connecting, [])"
  by (simp add: eval_defs)

text \<open>
  C3, amended: \<^verbatim>\<open>close\<close> on a socket that is not open does nothing, and a
  \<^verbatim>\<open>connectToDevice\<close> after it starts again from the first step (a connect
  request, \<open>ConnectingState\<close>) with the buffers as they were. On an open socket
  \<^verbatim>\<open>close\<close> requests the transport disconnect and the state becomes
  \<open>UnconnectedState\<close>; a \<^verbatim>\<open>connectToDevice\<close> after that starts again from the
  first step with no service, both flags false and both buffers empty.
\<close>

theorem close_only_when_open:
  "(\<not> isOpen s \<longrightarrow>
       close s = Inr (s, [])
       \<and> (\<exists>s''. connectToDevice s remoteDeviceInfo =
                 (s'', [Controller_connectToDevice remoteDeviceInfo,
                        Emit (Sig_stateChanged ConnectingState)])
               \<and> vsp_state s'' = ConnectingState \<and> controller s'' = Some remoteDeviceInfo
               \<and> readBuffer s'' = readBuffer s \<and> writeBuffer s'' = writeBuffer s))
   \<and> (isOpen s \<and> controller s \<noteq> None \<longrightarrow>
       (\<exists>s' out. close s = Inr (s', out)
          \<and> Controller_disconnectFromDevice \<in> set out
          \<and> vsp_state s' = UnconnectedState
          \<and> (\<exists>s''. connectToDevice s' remoteDeviceInfo =
                 (s'', [Controller_connectToDevice remoteDeviceInfo,
                        Emit (Sig_stateChanged ConnectingState)])
               \<and> vsp_state s'' = ConnectingState
               \<and> controller s'' = Some remoteDeviceInfo \<and> service s'' = None
               \<and> readBuffer s'' = [] \<and> writeBuffer s'' = []
               \<and> \<not> cts s'' \<and> \<not> rts s'' \<and> \<not> isOpen s'')))"
  by (simp add: close_def with_controller_def isOpen_def connectToDevice_def)

theorem close_only_when_open_witness:
  "\<not> isOpen laird_connecting \<and> close laird_connecting = Inr (laird_connecting, [])
   \<and> (\<exists>s''. connectToDevice laird_connecting ''again'' =
              (s'', [Controller_connectToDevice ''again'', Emit (Sig_stateChanged ConnectingState)])
         \<and> vsp_state s'' = ConnectingState)
   \<and> isOpen laird_connected \<and> controller laird_connected \<noteq> None
   \<and> (\<exists>s' out. close laird_connected = Inr (s', out)
          \<and> Controller_disconnectFromDevice \<in> set out
          \<and> vsp_state s' = UnconnectedState
          \<and> (\<exists>s''. connectToDevice s' ''again'' =
                 (s'', [Controller_connectToDevice ''again'',
                        Emit (Sig_stateChanged ConnectingState)])
               \<and> vsp_state s'' = ConnectingState \<and> readBuffer s'' = [] \<and> writeBuffer s'' = []))"
  using close_only_when_open [of laird_connecting "''again''"]
    close_only_when_open [of laird_connected "''again''"]
  by (simp add: eval_defs)

text \<open>
  C7, as stated, fails: \<^verbatim>\<open>close\<close> does not assign the characteristic handles.
  After closing the connected Laird socket, \<open>rxFifoChar\<close> is still the handle resolved
  during the handshake, not the invalid handle of a new socket.
\<close>

theorem close_counterexample:
  "isOpen laird_connected
   \<and> close laird_connected =
       Inr (laird_closed,
            [Emit (Sig_stateChanged ClosingState), Emit Sig_readChannelFinished,
             Controller_disconnectFromDevice, QIODevice_close,
             Emit (Sig_stateChanged UnconnectedState), Emit Sig_disconnected])
   \<and> rxFifoChar laird_closed = ValidCharacteristic ''569a2001-b87f-490c-92cb-11ba5ea5167c''
   \<and> rxFifoChar (QVSPSocket 4096) = InvalidCharacteristic"
  by (simp add: eval_defs)

text \<open>
  C7, amended: \<^verbatim>\<open>close\<close> on a socket that is not open does nothing. On an open
  socket it emits the change to \<open>ClosingState\<close> and \<^verbatim>\<open>readChannelFinished\<close>,
  requests the transport disconnect, closes the \<^verbatim>\<open>QIODevice\<close>, emits the change to
  \<open>UnconnectedState\<close> and \<^verbatim>\<open>disconnected\<close>, in this order. Afterwards the
  controller, the service, \<open>cts\<close>, \<open>rts\<close> and both buffers have the values of a new
  socket; the characteristic and descriptor handles, the manufacturer, the last error
  and the buffer size keep their values.
\<close>

theorem close_teardown:
  "(\<not> isOpen s \<longrightarrow> close s = Inr (s, []))
   \<and> (isOpen s \<and> controller s \<noteq> None \<longrightarrow>
       (\<exists>s'. close s =
            Inr (s',
                 [Emit (Sig_stateChanged ClosingState), Emit Sig_readChannelFinished,
                  Controller_disconnectFromDevice, QIODevice_close,
                  Emit (Sig_stateChanged UnconnectedState), Emit Sig_disconnected])
          \<and> vsp_state s' = UnconnectedState \<and> \<not> isOpen s'
          \<and> controller s' = controller (QVSPSocket (maxBufferSize s))
          \<and> service s' = service (QVSPSocket (maxBufferSize s))
          \<and> cts s' = cts (QVSPSocket (maxBufferSize s))
          \<and> rts s' = rts (QVSPSocket (maxBufferSize s))
          \<and> readBuffer s' = readBuffer (QVSPSocket (maxBufferSize s))
          \<and> writeBuffer s' = writeBuffer (QVSPSocket (maxBufferSize s))
          \<and> rxFifoChar s' = rxFifoChar s \<and> txFifoChar s' = txFifoChar s
          \<and> modemInChar s' = modemInChar s \<and> modemOutChar s' = modemOutChar s
          \<and> brspModeChar s' = brspModeChar s
          \<and> txFifoNotify s' = txFifoNotify s \<and> modemOutNotify s' = modemOutNotify s
          \<and> m s' = m s \<and> vsp_error s' = vsp_error s \<and> maxBufferSize s' = maxBufferSize s))"
  by (simp add: close_def with_controller_def isOpen_def QVSPSocket_def)

theorem close_teardown_witness:
  "\<not> isOpen laird_connecting \<and> close laird_connecting = Inr (laird_connecting, [])
   \<and> isOpen laird_connected \<and> controller laird_connected \<noteq> None
   \<and> (\<exists>s'. close laird_connected =
            Inr (s',
                 [Emit (Sig_stateChanged ClosingState), Emit Sig_readChannelFinished,
                  Controller_disconnectFromDevice, QIODevice_close,
                  Emit (Sig_stateChanged UnconnectedState), Emit Sig_disconnected])
          \<and> vsp_state s' = UnconnectedState \<and> readBuffer s' = [] \<and> writeBuffer s' = []
          \<and> \<not> cts s' \<and> \<not> rts s' \<and> controller s' = None \<and> service s' = None)"
  using close_teardown [of laird_connecting] close_teardown [of laird_connected]
  by (simp add: eval_defs)

subsection \<open>Writing\<close>

text \<open>
  C5: on an open socket, \<^verbatim>\<open>writeData\<close> with
  \<open>length writeBuffer + len + 1 > maxBufferSize\<close> returns \<open>-1\<close>, reports the write
  buffer overflow and leaves the write buffer as it was; otherwise it returns \<open>len\<close>
  after appending all the bytes and running the send step, so that what the send step
  wrote to RX FIFO followed by the new write buffer is the old write buffer followed by
  the bytes. With the buffer size 4096, a write of 4097 bytes is refused.
\<close>

theorem writeData_overflow:
  assumes "isOpen s"
  shows "(int (length (writeBuffer s)) + int (length data) + 1 > maxBufferSize s \<longrightarrow>
            writeData s data =
              Inr (- 1, s\<lparr>vsp_error := OperationError\<rparr>,
                   [SetErrorString
                      (TrArg ''Internal write buffer overflow (max. size %1), write failed''
                         (maxBufferSize s)),
                    Emit (Sig_error OperationError)])
            \<and> writeBuffer (s\<lparr>vsp_error := OperationError\<rparr>) = writeBuffer s)
       \<and> (int (length (writeBuffer s)) + int (length data) + 1 \<le> maxBufferSize s
            \<and> service s \<noteq> None \<longrightarrow>
            (\<exists>s' out. writeData s data = Inr (int (length data), s', out)
               \<and> writeInternal (s\<lparr>writeBuffer := writeBuffer s @ data\<rparr>) = Inr (s', out)
               \<and> concat (written_to (rxFifoChar s) out) @ writeBuffer s' = writeBuffer s @ data))
       \<and> (maxBufferSize s = 4096 \<and> length data = 4096 + 1 \<longrightarrow>
            (\<exists>s' out. writeData s data = Inr (- 1, s', out)
               \<and> writeBuffer s' = writeBuffer s \<and> Emit (Sig_error OperationError) \<in> set out))"
proof -
  let ?err = "Inr (- 1, s\<lparr>vsp_error := OperationError\<rparr>,
           [SetErrorString
              (TrArg ''Internal write buffer overflow (max. size %1), write failed''
                 (maxBufferSize s)),
            Emit (Sig_error OperationError)])"
  have over: "writeData s data = ?err"
    if "int (length (writeBuffer s)) + int (length data) + 1 > maxBufferSize s"
    using assms that by (simp add: writeData_eq)
  have fits: "\<exists>s' out. writeData s data = Inr (int (length data), s', out)
      \<and> writeInternal (s\<lparr>writeBuffer := writeBuffer s @ data\<rparr>) = Inr (s', out)
      \<and> concat (written_to (rxFifoChar s) out) @ writeBuffer s' = writeBuffer s @ data"
    if le: "int (length (writeBuffer s)) + int (length data) + 1 \<le> maxBufferSize s"
      and srv: "service s \<noteq> None"
  proof -
    let ?s1 = "s\<lparr>writeBuffer := writeBuffer s @ data\<rparr>"
    from srv obtain s' out where w: "writeInternal ?s1 = Inr (s', out)"
      using writeInternal_total [of ?s1] by auto
    from writeInternal_conserves [OF w]
    have "concat (written_to (rxFifoChar s) out) @ writeBuffer s' = writeBuffer s @ data"
      by simp
    moreover from assms le w have "writeData s data = Inr (int (length data), s', out)"
      by (simp add: writeData_eq)
    ultimately show ?thesis using w by blast
  qed
  have scenario: "\<exists>s' out. writeData s data = Inr (- 1, s', out)
      \<and> writeBuffer s' = writeBuffer s \<and> Emit (Sig_error OperationError) \<in> set out"
    if "maxBufferSize s = 4096 \<and> length data = 4096 + 1"
    using over that by simp
  from over fits scenario show ?thesis by simp
qed

theorem writeData_overflow_witness:
  "isOpen laird_connected
   \<and> maxBufferSize laird_connected = 4096 \<and> length (replicate 4097 (0::byte)) = 4096 + 1
   \<and> (\<exists>s' out. writeData laird_connected (replicate 4097 0) = Inr (- 1, s', out)
         \<and> writeBuffer s' = writeBuffer laird_connected
         \<and> Emit (Sig_error OperationError) \<in> set out)
   \<and> int (length (writeBuffer laird_connected)) + int (length [1, 2, 3 :: byte]) + 1
       \<le> maxBufferSize laird_connected
   \<and> service laird_connected \<noteq> None
   \<and> (\<exists>s' out. writeData laird_connected [1, 2, 3] = Inr (int (length [1, 2, 3 :: byte]), s', out)
         \<and> writeInternal (laird_connected\<lparr>writeBuffer := writeBuffer laird_connected @ [1, 2, 3]\<rparr>)
             = Inr (s', out)
         \<and> concat (written_to (rxFifoChar laird_connected) out) @ writeBuffer s'
             = writeBuffer laird_connected @ [1, 2, 3])"
proof -
  have opn: "isOpen laird_connected"
    by (simp add: laird_connected_def isOpen_def)
  have big: "maxBufferSize laird_connected = 4096 \<and> length (replicate 4097 (0::byte)) = 4096 + 1"
    by (simp add: laird_connected_def)
  have small: "int (length (writeBuffer laird_connected)) + int (length [1, 2, 3 :: byte]) + 1
       \<le> maxBufferSize laird_connected \<and> service laird_connected \<noteq> None"
    by (simp add: laird_connected_def)
  show ?thesis
    using opn big small writeData_overflow [OF opn, of "replicate 4097 0"]
      writeData_overflow [OF opn, of "[1, 2, 3]"]
    by blast
qed

subsection \<open>Manual flow control\<close>

text \<open>
  C9, as stated, fails: \<^verbatim>\<open>unsetRTS\<close> writes only while \<open>rts\<close> is set. On the
  connected socket whose last confirmed MODEM IN value is the clear value, it makes no
  call.
\<close>

theorem unsetRTS_counterexample:
  "isOpen laird_paused \<and> service laird_paused \<noteq> None
   \<and> unsetRTS laird_paused = Inr (laird_paused, [])"
  by (simp add: eval_defs)

text \<open>
  C9, amended: \<^verbatim>\<open>unsetRTS\<close> writes the clear value to MODEM IN when \<open>rts\<close> is
  set and does nothing when it is not; \<^verbatim>\<open>setRTS\<close> does nothing, and reports
  nothing, whenever \<open>length readBuffer + 20 + 1 > maxBufferSize\<close>.
\<close>

theorem manual_flow_control:
  "(rts s \<and> service s \<noteq> None \<longrightarrow>
      unsetRTS s = Inr (s, [Service_writeCharacteristic (modemInChar s) (MODEM_CLEAR_BIT (m s))]))
   \<and> (\<not> rts s \<longrightarrow> unsetRTS s = Inr (s, []))
   \<and> (int (length (readBuffer s)) + 20 + 1 > maxBufferSize s \<longrightarrow> setRTS s = Inr (s, []))"
  by (simp add: unsetRTS_def setRTS_def with_service_def PACKET_SIZE_def)

theorem manual_flow_control_witness:
  "rts laird_connected \<and> service laird_connected \<noteq> None
   \<and> unsetRTS laird_connected =
       Inr (laird_connected, [Service_writeCharacteristic (modemInChar laird_connected) [0]])
   \<and> \<not> rts laird_paused \<and> unsetRTS laird_paused = Inr (laird_paused, [])
   \<and> int (length (readBuffer laird_full)) + 20 + 1 > maxBufferSize laird_full
   \<and> setRTS laird_full = Inr (laird_full, [])"
  using manual_flow_control [of laird_connected] manual_flow_control [of laird_paused]
    manual_flow_control [of laird_full]
  by (simp add: laird_connected_def laird_paused_def laird_full_def)

subsection \<open>Runs and repeated lambdas\<close>

lemma then_do_Inr:
  "then_do r f = Inr (s', out) \<longleftrightarrow>
     (\<exists>s1 out1 out2. r = Inr (s1, out1) \<and> f s1 = Inr (s', out2) \<and> out = out1 @ out2)"
  by (auto simp add: then_do_def split: sum.splits prod.splits)

lemma repeat_slot_rel:
  assumes refl: "\<And>s. R s [] s"
    and trans: "\<And>s out1 s1 out2 s2. R s out1 s1 \<Longrightarrow> R s1 out2 s2 \<Longrightarrow> R s (out1 @ out2) s2"
    and h: "\<And>s s' out. h s = Inr (s', out) \<Longrightarrow> R s out s'"
  shows "repeat_slot n h s = Inr (s', out) \<Longrightarrow> R s out s'"
proof (induction n arbitrary: s s' out)
  case 0
  then show ?case using refl by simp
next
  case (Suc n)
  then obtain s1 out1 out2 where "h s = Inr (s1, out1)" "repeat_slot n h s1 = Inr (s', out2)"
    "out = out1 @ out2"
    by (auto simp add: then_do_Inr)
  then show ?case using h Suc.IH trans by blast
qed

lemma repeat_slot_inv:
  assumes h: "\<And>s s' out. h s = Inr (s', out) \<Longrightarrow> P s \<Longrightarrow> P s'"
  shows "repeat_slot n h s = Inr (s', out) \<Longrightarrow> P s \<Longrightarrow> P s'"
  using repeat_slot_rel [where R = "\<lambda>s out s'. P s \<longrightarrow> P s'" and h = h] h by blast

lemma effects_Did [simp]: "effects (map Did out) = out"
  by (induction out) simp_all

lemma effects_append [simp]: "effects (xs @ ys) = effects xs @ effects ys"
  by (induction xs rule: effects.induct) simp_all

lemma run_Cons_Inr:
  "run s (e # es) = Inr (s', log) \<longleftrightarrow>
     (\<exists>s1 log1 log2. step s e = Inr (s1, log1) \<and> run s1 es = Inr (s', log2) \<and> log = log1 @ log2)"
  by (auto split: sum.splits prod.splits)

lemma run_append:
  "run s (xs @ ys) = Inr (s', log) \<longleftrightarrow>
     (\<exists>s1 log1 log2. run s xs = Inr (s1, log1) \<and> run s1 ys = Inr (s', log2) \<and> log = log1 @ log2)"
proof (induction xs arbitrary: s log)
  case Nil
  then show ?case by simp
next
  case (Cons e xs)
  show ?case
    unfolding append_Cons run_Cons_Inr Cons.IH
    by (auto; blast)
qed

lemma run_prefix:
  assumes "run s evs = Inr (s', log)"
  shows "\<exists>sk logk. run s (take k evs) = Inr (sk, logk)"
proof -
  have "run s (take k evs @ drop k evs) = Inr (s', log)"
    using assms by simp
  then show ?thesis
    unfolding run_append by blast
qed

lemma drop_length_take: "drop (length (take n xs)) xs = drop n xs"
  by (cases "n \<le> length xs") (simp_all add: min_def)

lemma readData_Inr:
  "readData s maxlen pending = Inr (r, s', log) \<longleftrightarrow>
     (\<not> isOpen s \<and> r = (- 1, []) \<and> s' = s\<lparr>vsp_error := OperationError\<rparr>
        \<and> log = [Did (SetErrorString (Tr ''Cannot read while not connected'')),
                  Did (Emit (Sig_error OperationError))])
     \<or> (isOpen s
        \<and> (\<exists>s1 log1. run s pending = Inr (s1, log1)
              \<and> r = (int (length (take maxlen (readBuffer s1))), take maxlen (readBuffer s1))
              \<and> s' = s1\<lparr>readBuffer := drop maxlen (readBuffer s1)\<rparr>
              \<and> (if \<not> rts s1
                     \<and> int (length (drop maxlen (readBuffer s1))) + 20 + 1 \<le> maxBufferSize s1
                  then service s1 \<noteq> None
                     \<and> log = log1 @ [Did (Service_writeCharacteristic (modemInChar s1)
                                            (MODEM_SET_BIT (m s1)))]
                  else log = log1)))"
  unfolding readData.simps Let_def drop_length_take PACKET_SIZE_def
  by (auto split: sum.splits)

lemma run_rel:
  fixes R :: "vsp \<Rightarrow> effect list \<Rightarrow> vsp \<Rightarrow> bool" and ok :: "event \<Rightarrow> bool"
  assumes refl: "\<And>s. R s [] s"
    and trans: "\<And>s out1 s1 out2 s2. R s out1 s1 \<Longrightarrow> R s1 out2 s2 \<Longrightarrow> R s (out1 @ out2) s2"
    and nested: "\<And>maxlen pending. ok (Call_readData maxlen pending) \<Longrightarrow> list_all ok pending"
    and base: "\<And>s e s' log. ok e \<Longrightarrow> \<forall>maxlen pending. e \<noteq> Call_readData maxlen pending
        \<Longrightarrow> step s e = Inr (s', log) \<Longrightarrow> R s (effects log) s'"
    and rerr: "\<And>s. \<not> isOpen s \<Longrightarrow>
        R s [SetErrorString (Tr ''Cannot read while not connected''),
             Emit (Sig_error OperationError)] (s\<lparr>vsp_error := OperationError\<rparr>)"
    and rdrop: "\<And>s n. R s [] (s\<lparr>readBuffer := drop n (readBuffer s)\<rparr>)"
    and rset: "\<And>s. service s \<noteq> None \<Longrightarrow>
        R s [Service_writeCharacteristic (modemInChar s) (MODEM_SET_BIT (m s))] s"
  shows "ok (Call_readData maxlen pending) \<Longrightarrow> readData s maxlen pending = Inr (r, s', log)
      \<Longrightarrow> R s (effects log) s'"
    and "ok e \<Longrightarrow> step s e = Inr (s', log) \<Longrightarrow> R s (effects log) s'"
    and "list_all ok es \<Longrightarrow> run s es = Inr (s', log) \<Longrightarrow> R s (effects log) s'"
proof (induction s maxlen pending and s e and s es arbitrary: r s' log and s' log and s' log
    rule: readData_step_run.induct)
  case (1 s maxlen pending)
  show ?case
  proof (cases "isOpen s")
    case False
    with "1.prems"(2) rerr [of s] show ?thesis
      by (auto simp add: readData_Inr)
  next
    case True
    with "1.prems"(2) obtain s1 log1 where
      r: "run s pending = Inr (s1, log1)"
      and s': "s' = s1\<lparr>readBuffer := drop maxlen (readBuffer s1)\<rparr>"
      and l: "if \<not> rts s1
                 \<and> int (length (drop maxlen (readBuffer s1))) + 20 + 1 \<le> maxBufferSize s1
              then service s1 \<noteq> None
                 \<and> log = log1 @ [Did (Service_writeCharacteristic (modemInChar s1)
                                        (MODEM_SET_BIT (m s1)))]
              else log = log1"
      by (auto simp add: readData_Inr)
    from "1.IH" [OF _ nested [OF "1.prems"(1)] r] True
    have a: "R s (effects log1) s1" by simp
    from rdrop [of s1 maxlen] s' have b: "R s1 [] s'" by simp
    show ?thesis
    proof (cases "\<not> rts s1
               \<and> int (length (drop maxlen (readBuffer s1))) + 20 + 1 \<le> maxBufferSize s1")
      case True
      with l s' have srv: "service s' \<noteq> None"
        and log: "log = log1 @ [Did (Service_writeCharacteristic (modemInChar s')
                                      (MODEM_SET_BIT (m s')))]"
        by simp_all
      from trans [OF trans [OF a b] rset [OF srv]] log show ?thesis by simp
    next
      case False
      with l have "log = log1" by simp
      with trans [OF a b] show ?thesis by simp
    qed
  qed
next
  case (4 s maxlen pending)
  from "4.prems"(2) obtain res data log0 where
    rd: "readData s maxlen pending = Inr ((res, data), s', log0)"
    and l: "log = log0 @ [ReadReturned res data]"
    by (auto split: sum.splits)
  from "4.IH" [OF "4.prems"(1) rd] l show ?case by simp
next
  case (9 s)
  then show ?case using refl by simp
next
  case (10 s e es)
  from "10.prems"(2) obtain s1 log1 log2 where
    st: "step s e = Inr (s1, log1)" and r: "run s1 es = Inr (s', log2)" and l: "log = log1 @ log2"
    unfolding run_Cons_Inr by blast
  from "10.prems"(1) have oe: "ok e" and oes: "list_all ok es" by simp_all
  from "10.IH"(1) [OF oe st] have a: "R s (effects log1) s1" .
  from "10.IH"(2) [OF st _ oes r] have b: "R s1 (effects log2) s'" by simp
  from trans [OF a b] l show ?case by simp
qed (use base in auto)

lemma run_inv:
  assumes base: "\<And>s e s' log. \<forall>maxlen pending. e \<noteq> Call_readData maxlen pending
        \<Longrightarrow> step s e = Inr (s', log) \<Longrightarrow> P s \<Longrightarrow> P s'"
    and rerr: "\<And>s. P s \<Longrightarrow> P (s\<lparr>vsp_error := OperationError\<rparr>)"
    and rdrop: "\<And>s n. P s \<Longrightarrow> P (s\<lparr>readBuffer := drop n (readBuffer s)\<rparr>)"
  shows "run s es = Inr (s', log) \<Longrightarrow> P s \<Longrightarrow> P s'"
  using run_rel(3) [where R = "\<lambda>s out s'. P s \<longrightarrow> P s'" and ok = "\<lambda>e. True"
      and es = es and s = s and s' = s' and log = log]
    base rerr rdrop
  by (simp add: list_all_iff)

lemma Did_in_log: "Did e \<in> set log \<longleftrightarrow> e \<in> set (effects log)"
  by (induction log rule: effects.induct) auto

subsection \<open>The read buffer stays below its bound\<close>

lemma writeInternal_rb: "writeInternal s = Inr (s', out) \<Longrightarrow> rb_bounded s \<Longrightarrow> rb_bounded s'"
  by (auto simp add: writeInternal_eq with_service_def rb_bounded_def Let_def split: if_splits)

lemma onServiceError_rb:
  "onServiceError s err = Inr (s', out) \<Longrightarrow> rb_bounded s \<Longrightarrow> rb_bounded s'"
  by (auto simp add: onServiceError_def rb_bounded_def)

lemma onStateChanged_rb:
  "onStateChanged s newState d = Inr (s', out) \<Longrightarrow> rb_bounded s \<Longrightarrow> rb_bounded s'"
  by (auto simp add: onStateChanged_def cannotRetrieve_def rb_bounded_def Let_def split: if_splits)

lemma onDescriptorWritten_rb:
  "onDescriptorWritten s descr newValue = Inr (s', out) \<Longrightarrow> rb_bounded s \<Longrightarrow> rb_bounded s'"
  by (auto simp add: onDescriptorWritten_def with_service_def rb_bounded_def split: if_splits)

lemma onCharacteristicChanged_rb:
  "onCharacteristicChanged s info newValue = Inr (s', out) \<Longrightarrow> rb_bounded s \<Longrightarrow> rb_bounded s'"
  by (auto simp add: onCharacteristicChanged_def with_service_def then_do_Inr rb_bounded_def Let_def
      split: if_splits dest!: writeInternal_rb)

lemma onCharacteristicRead_rb:
  "onCharacteristicRead s info val = Inr (s', out) \<Longrightarrow> rb_bounded s \<Longrightarrow> rb_bounded s'"
  by (auto simp add: onCharacteristicRead_def rb_bounded_def split: if_splits)

lemma onCharacteristicWritten_rb:
  "onCharacteristicWritten s info val = Inr (s', out) \<Longrightarrow> rb_bounded s \<Longrightarrow> rb_bounded s'"
  by (auto simp add: onCharacteristicWritten_def with_service_def rb_bounded_def Let_def
      split: if_splits dest!: writeInternal_rb)

lemma deliver_rb:
  assumes "deliver s e = Inr (s', out)" and "rb_bounded s"
  shows "rb_bounded s'"
proof (cases e)
  case Ctl_error
  with assms show ?thesis
    by (auto simp add: onControllerError_def with_controller_def rb_bounded_def split: if_splits)
next
  case Ctl_connected
  with assms show ?thesis
    by (auto simp add: onConnected_def with_controller_def rb_bounded_def split: if_splits)
next
  case (Ctl_discoveryFinished services)
  with assms show ?thesis
    by (auto simp add: onDiscoveryFinished_def rb_bounded_def Let_def split: if_splits option.splits)
next
  case (Svc_error err)
  with assms repeat_slot_inv [of "\<lambda>s. onServiceError s err" rb_bounded, OF onServiceError_rb]
  show ?thesis by (auto split: if_splits)
next
  case (Svc_stateChanged newState d)
  with assms repeat_slot_inv [of "\<lambda>s. onStateChanged s newState d" rb_bounded, OF onStateChanged_rb]
  show ?thesis by (auto split: if_splits)
next
  case (Svc_descriptorWritten descr newValue)
  with assms
    repeat_slot_inv [of "\<lambda>s. onDescriptorWritten s descr newValue" rb_bounded, OF onDescriptorWritten_rb]
  show ?thesis by (auto split: if_splits)
next
  case (Svc_characteristicChanged info newValue)
  with assms
    repeat_slot_inv [of "\<lambda>s. onCharacteristicChanged s info newValue" rb_bounded,
      OF onCharacteristicChanged_rb]
  show ?thesis by (auto split: if_splits)
next
  case (Svc_characteristicRead info val)
  with assms
    repeat_slot_inv [of "\<lambda>s. onCharacteristicRead s info val" rb_bounded, OF onCharacteristicRead_rb]
  show ?thesis by (auto split: if_splits)
next
  case (Svc_characteristicWritten info val)
  with assms
    repeat_slot_inv [of "\<lambda>s. onCharacteristicWritten s info val" rb_bounded,
      OF onCharacteristicWritten_rb]
  show ?thesis by (auto split: if_splits)
qed

lemma step_rb:
  assumes "step s e = Inr (s', log)" and "rb_bounded s"
    and "\<forall>maxlen pending. e \<noteq> Call_readData maxlen pending"
  shows "rb_bounded s'"
proof (cases e)
  case (Call_connectToDevice remoteDeviceInfo)
  with assms show ?thesis
    by (auto simp add: connectToDevice_def rb_bounded_def split: if_splits)
next
  case Call_close
  with assms show ?thesis
    by (auto simp add: close_def with_controller_def rb_bounded_def split: if_splits sum.splits)
next
  case (Call_readData maxlen pending)
  with assms show ?thesis by simp
next
  case (Call_writeData data)
  with assms show ?thesis
    by (auto simp add: writeData_eq split: if_splits sum.splits prod.splits dest!: writeInternal_rb)
      (auto simp add: rb_bounded_def)
next
  case Call_setRTS
  with assms show ?thesis
    by (auto simp add: setRTS_def with_service_def split: if_splits sum.splits)
next
  case Call_unsetRTS
  with assms show ?thesis
    by (auto simp add: unsetRTS_def with_service_def split: if_splits sum.splits)
next
  case (Transport e')
  with assms show ?thesis
    by (auto split: sum.splits dest: deliver_rb)
qed

lemma run_rb:
  "run s evs = Inr (s', log) \<Longrightarrow> rb_bounded s \<Longrightarrow> rb_bounded s'"
proof (rule run_inv [where P = rb_bounded])
  show "\<And>s e s' log. \<forall>maxlen pending. e \<noteq> Call_readData maxlen pending
      \<Longrightarrow> step s e = Inr (s', log) \<Longrightarrow> rb_bounded s \<Longrightarrow> rb_bounded s'"
    using step_rb by blast
  show "\<And>s. rb_bounded s \<Longrightarrow> rb_bounded (s\<lparr>vsp_error := OperationError\<rparr>)"
    by (simp add: rb_bounded_def)
  show "\<And>s n. rb_bounded s \<Longrightarrow> rb_bounded (s\<lparr>readBuffer := drop n (readBuffer s)\<rparr>)"
    by (simp add: rb_bounded_def)
qed

text \<open>
  C2: a TX FIFO notification whose payload would make
  \<open>length readBuffer + length payload + 1\<close> exceed \<open>maxBufferSize\<close> is dropped: the
  lambda writes the clear value to MODEM IN, reports the read buffer overflow with
  \<^verbatim>\<open>CharacteristicReadError\<close>, and changes nothing but the last error, so the read
  buffer is as before and an open socket stays open. And after every prefix of every
  run of a new socket with a positive buffer size, the read buffer is shorter than
  \<open>maxBufferSize\<close>.
\<close>

theorem read_overflow_drops_packet:
  "(int (length (readBuffer s)) + int (length newValue) + 1 > maxBufferSize s
      \<and> service s \<noteq> None \<longrightarrow>
      (\<exists>s'. onCharacteristicChanged s (txFifoChar s) newValue =
          Inr (s', [Service_writeCharacteristic (modemInChar s) (MODEM_CLEAR_BIT (m s)),
                    SetErrorString
                      (TrArg ''Internal read buffer overflow (max. size %1), data packet dropped''
                         (maxBufferSize s)),
                    Emit (Sig_error CharacteristicReadError)])
        \<and> s' = s\<lparr>vsp_error := CharacteristicReadError\<rparr>
        \<and> readBuffer s' = readBuffer s \<and> isOpen s' = isOpen s \<and> vsp_state s' = vsp_state s))
   \<and> (0 < n \<and> run (QVSPSocket n) evs = Inr (se, log) \<longrightarrow>
        (\<forall>k. \<exists>sk logk. run (QVSPSocket n) (take k evs) = Inr (sk, logk)
              \<and> int (length (readBuffer sk)) < maxBufferSize sk))"
proof (intro conjI impI allI)
  assume "int (length (readBuffer s)) + int (length newValue) + 1 > maxBufferSize s
      \<and> service s \<noteq> None"
  then show "\<exists>s'. onCharacteristicChanged s (txFifoChar s) newValue =
          Inr (s', [Service_writeCharacteristic (modemInChar s) (MODEM_CLEAR_BIT (m s)),
                    SetErrorString
                      (TrArg ''Internal read buffer overflow (max. size %1), data packet dropped''
                         (maxBufferSize s)),
                    Emit (Sig_error CharacteristicReadError)])
        \<and> s' = s\<lparr>vsp_error := CharacteristicReadError\<rparr>
        \<and> readBuffer s' = readBuffer s \<and> isOpen s' = isOpen s \<and> vsp_state s' = vsp_state s"
    by (simp add: onCharacteristicChanged_def with_service_def isOpen_def)
next
  fix k
  assume a: "0 < n \<and> run (QVSPSocket n) evs = Inr (se, log)"
  then obtain sk logk where r: "run (QVSPSocket n) (take k evs) = Inr (sk, logk)"
    using run_prefix by blast
  from a have "rb_bounded (QVSPSocket n)"
    by (simp add: rb_bounded_def QVSPSocket_def)
  with r have "rb_bounded sk"
    by (rule run_rb)
  with r show "\<exists>sk logk. run (QVSPSocket n) (take k evs) = Inr (sk, logk)
      \<and> int (length (readBuffer sk)) < maxBufferSize sk"
    by (auto simp add: rb_bounded_def)
qed

theorem read_overflow_drops_packet_witness:
  "int (length (readBuffer laird_full)) + int (length (replicate 20 (7::byte))) + 1
     > maxBufferSize laird_full
   \<and> service laird_full \<noteq> None
   \<and> (\<exists>s'. onCharacteristicChanged laird_full (txFifoChar laird_full) (replicate 20 7) =
          Inr (s', [Service_writeCharacteristic (modemInChar laird_full) (MODEM_CLEAR_BIT (m laird_full)),
                    SetErrorString
                      (TrArg ''Internal read buffer overflow (max. size %1), data packet dropped''
                         (maxBufferSize laird_full)),
                    Emit (Sig_error CharacteristicReadError)])
        \<and> readBuffer s' = readBuffer laird_full \<and> isOpen s' = isOpen laird_full)
   \<and> (0::int) < 21
   \<and> (\<exists>log. run (QVSPSocket 21) laird_full_run = Inr (laird_full, log))
   \<and> (\<forall>k. \<exists>sk logk. run (QVSPSocket 21) (take k laird_full_run) = Inr (sk, logk)
              \<and> int (length (readBuffer sk)) < maxBufferSize sk)"
proof -
  have over: "int (length (readBuffer laird_full)) + int (length (replicate 20 (7::byte))) + 1
     > maxBufferSize laird_full \<and> service laird_full \<noteq> None"
    by (simp add: laird_full_def laird_paused_def laird_connected_def)
  obtain log where r: "run (QVSPSocket 21) laird_full_run = Inr (laird_full, log)"
    using laird_full_reachable by (cases "run (QVSPSocket 21) laird_full_run") auto
  have pos: "(0::int) < 21" by simp
  show ?thesis
    using over r pos
      read_overflow_drops_packet [of laird_full "replicate 20 7" 21 laird_full_run laird_full log]
    by blast
qed

subsection \<open>Flow control on the read side\<close>


text \<open>
  \<^verbatim>\<open>setRTS\<close> and the last line of \<^verbatim>\<open>readData\<close> call
  \<^verbatim>\<open>service->writeCharacteristic\<close> with no test of \<^verbatim>\<open>service\<close>: on a new socket, and in
  a read whose \<^verbatim>\<open>processEvents\<close> runs a queued \<^verbatim>\<open>close()\<close>, the pointer is null.
\<close>

lemma setRTS_without_service:
  "setRTS QVSPSocket_default = Inl NullPointerDereference"
  by (simp add: eval_defs)

lemma readData_pumps_close:
  "readData laird_connected 5 [Call_close] = Inl NullPointerDereference"
  by (simp add: eval_defs readData.simps)



subsection \<open>Outstanding data writes\<close>

text \<open>
  C4, as stated, fails: nothing in the socket records that a data write is outstanding.
  Two \<^verbatim>\<open>writeData\<close> calls in a row on the connected socket, with no signal of
  the transport in between, hand two chunks to RX FIFO.
\<close>

theorem two_writes_counterexample:
  "run laird_connected [Call_writeData [1, 2, 3], Call_writeData [4, 5]] =
     Inr (laird_connected,
          [Did (Service_writeCharacteristic (rxFifoChar laird_connected) [1, 2, 3]),
           Did (Emit (Sig_bytesWritten 3)), WriteReturned 3,
           Did (Service_writeCharacteristic (rxFifoChar laird_connected) [4, 5]),
           Did (Emit (Sig_bytesWritten 2)), WriteReturned 2])"
  by (simp add: eval_defs)

text \<open>
  C4, amended: one run of the send step \<^verbatim>\<open>writeInternal\<close> hands at most one chunk
  of at most 20 bytes to RX FIFO, and none while \<open>cts\<close> is false. The confirmation of
  an RX FIFO write runs the send step, and so does every MODEM OUT notification and
  every accepted \<^verbatim>\<open>writeData\<close>, at once: an accepted write of at least one byte
  on a socket with \<open>cts\<close> set hands over a chunk whether or not an earlier chunk has
  been confirmed.
\<close>

theorem send_step_triggers:
  "(writeInternal s = Inr (s', out) \<longrightarrow>
      length (written_to (rxFifoChar s) out) \<le> 1
      \<and> (\<forall>c \<in> set (written_to (rxFifoChar s) out). length c \<le> 20)
      \<and> (\<not> cts s \<longrightarrow> out = []))
   \<and> onCharacteristicWritten s (rxFifoChar s) val = writeInternal s
   \<and> (modemOutChar s \<noteq> txFifoChar s \<longrightarrow>
        onCharacteristicChanged s (modemOutChar s) newValue =
          writeInternal (s\<lparr>cts := (newValue = MODEM_SET_BIT (m s))\<rparr>))
   \<and> (isOpen s \<and> int (length (writeBuffer s)) + int (length data) + 1 \<le> maxBufferSize s
        \<and> cts s \<and> data \<noteq> [] \<and> service s \<noteq> None \<longrightarrow>
        (\<exists>s'' out'. writeData s data = Inr (int (length data), s'', out')
           \<and> length (written_to (rxFifoChar s) out') = 1))"
proof (intro conjI impI)
  assume w: "writeInternal s = Inr (s', out)"
  from writeInternal_cases [OF w]
  show "length (written_to (rxFifoChar s) out) \<le> 1" by auto
  from writeInternal_cases [OF w]
  show "\<forall>c \<in> set (written_to (rxFifoChar s) out). length c \<le> 20" by auto
  assume "\<not> cts s"
  with writeInternal_cases [OF w] show "out = []" by auto
next
  show "onCharacteristicWritten s (rxFifoChar s) val = writeInternal s"
    by (simp add: onCharacteristicWritten_def)
next
  assume "modemOutChar s \<noteq> txFifoChar s"
  then show "onCharacteristicChanged s (modemOutChar s) newValue =
          writeInternal (s\<lparr>cts := (newValue = MODEM_SET_BIT (m s))\<rparr>)"
    by (simp add: onCharacteristicChanged_def)
next
  assume "isOpen s \<and> int (length (writeBuffer s)) + int (length data) + 1 \<le> maxBufferSize s
        \<and> cts s \<and> data \<noteq> [] \<and> service s \<noteq> None"
  then show "\<exists>s'' out'. writeData s data = Inr (int (length data), s'', out')
           \<and> length (written_to (rxFifoChar s) out') = 1"
    by (auto simp add: writeData_eq writeInternal_eq with_service_def PACKET_SIZE_def Let_def)
qed

theorem send_step_triggers_witness:
  "writeInternal (laird_connected\<lparr>writeBuffer := [1, 2, 3]\<rparr>) =
     Inr (laird_connected,
          [Service_writeCharacteristic (rxFifoChar laird_connected) [1, 2, 3],
           Emit (Sig_bytesWritten 3)])
   \<and> length (written_to (rxFifoChar (laird_connected\<lparr>writeBuffer := [1, 2, 3]\<rparr>))
        [Service_writeCharacteristic (rxFifoChar laird_connected) [1, 2, 3],
         Emit (Sig_bytesWritten 3)]) \<le> 1
   \<and> modemOutChar laird_connected \<noteq> txFifoChar laird_connected
   \<and> onCharacteristicChanged laird_connected (modemOutChar laird_connected) [0] =
        writeInternal (laird_connected\<lparr>cts := ([0] = MODEM_SET_BIT (m laird_connected))\<rparr>)
   \<and> isOpen laird_connected
   \<and> int (length (writeBuffer laird_connected)) + int (length [4, 5 :: byte]) + 1
        \<le> maxBufferSize laird_connected
   \<and> cts laird_connected \<and> [4, 5 :: byte] \<noteq> [] \<and> service laird_connected \<noteq> None
   \<and> (\<exists>s'' out'. writeData laird_connected [4, 5] = Inr (int (length [4, 5 :: byte]), s'', out')
           \<and> length (written_to (rxFifoChar laird_connected) out') = 1)"
proof -
  have a: "writeInternal (laird_connected\<lparr>writeBuffer := [1, 2, 3]\<rparr>) =
     Inr (laird_connected,
          [Service_writeCharacteristic (rxFifoChar laird_connected) [1, 2, 3],
           Emit (Sig_bytesWritten 3)])"
    by (simp add: eval_defs)
  have b: "modemOutChar laird_connected \<noteq> txFifoChar laird_connected"
    by (simp add: laird_connected_def)
  have c: "isOpen laird_connected
   \<and> int (length (writeBuffer laird_connected)) + int (length [4, 5 :: byte]) + 1
        \<le> maxBufferSize laird_connected
   \<and> cts laird_connected \<and> [4, 5 :: byte] \<noteq> [] \<and> service laird_connected \<noteq> None"
    by (simp add: laird_connected_def isOpen_def)
  show ?thesis
    using a b c
      send_step_triggers [of "laird_connected\<lparr>writeBuffer := [1, 2, 3]\<rparr>" laird_connected
        "[Service_writeCharacteristic (rxFifoChar laird_connected) [1, 2, 3],
           Emit (Sig_bytesWritten 3)]"]
      send_step_triggers [of laird_connected _ _ _ "[0]" "[4, 5]"]
    by blast
qed

subsection \<open>The mode switch comes first\<close>

lemma blueradios_discovered_reachable:
  "map_sum id fst (run QVSPSocket_default
      [Call_connectToDevice ''dev'', Transport Ctl_connected,
       Transport (Ctl_discoveryFinished [''1800'', ''da2b84f1-6279-48de-bdc0-afbea0226079''])])
   = Inr blueradios_discovered"
  by (simp add: eval_defs blueradios_discovered_def)

lemma laird_discovered_reachable:
  "map_sum id fst (run QVSPSocket_default (take 3 laird_handshake)) = Inr laird_discovered"
  by (simp add: eval_defs laird_discovered_def)

lemma waiting_refl: "waiting c s [] s"
  by (simp add: waiting_def)

lemma waiting_trans:
  "waiting c s out1 s1 \<Longrightarrow> waiting c s1 out2 s2 \<Longrightarrow> waiting c s (out1 @ out2) s2"
  by (auto simp add: waiting_def handles_def)

lemma writeInternal_waits: "writeInternal s = Inr (s', out) \<Longrightarrow> waiting c s out s'"
  by (drule writeInternal_cases) (auto simp add: waiting_def handles_def)

lemma onServiceError_waits: "onServiceError s err = Inr (s', out) \<Longrightarrow> waiting c s out s'"
  by (cases err) (auto simp add: onServiceError_def waiting_def handles_def)

lemma onStateChanged_waits:
  "newState \<noteq> ServiceDiscovered \<Longrightarrow> onStateChanged s newState d = Inr (s', out)
   \<Longrightarrow> waiting c s out s'"
  by (auto simp add: onStateChanged_def waiting_def)

lemma onDescriptorWritten_waits:
  "onDescriptorWritten s descr newValue = Inr (s', out) \<Longrightarrow> waiting c s out s'"
  by (auto simp add: onDescriptorWritten_def with_service_def waiting_def split: if_splits)

lemma onCharacteristicChanged_waits:
  "onCharacteristicChanged s info newValue = Inr (s', out) \<Longrightarrow> waiting c s out s'"
proof (cases "info \<noteq> txFifoChar s \<and> info = modemOutChar s")
  case True
  assume "onCharacteristicChanged s info newValue = Inr (s', out)"
  with True have "writeInternal (s\<lparr>cts := (newValue = MODEM_SET_BIT (m s))\<rparr>) = Inr (s', out)"
    by (auto simp add: onCharacteristicChanged_def)
  from writeInternal_waits [OF this, of c] show ?thesis
    by (simp add: waiting_def handles_def)
next
  case False
  assume "onCharacteristicChanged s info newValue = Inr (s', out)"
  with False show ?thesis
    by (auto simp add: onCharacteristicChanged_def with_service_def then_do_Inr waiting_def
        handles_def Let_def split: if_splits)
qed

lemma onCharacteristicRead_waits:
  "onCharacteristicRead s info val = Inr (s', out) \<Longrightarrow> waiting c s out s'"
  by (auto simp add: onCharacteristicRead_def waiting_def handles_def split: if_splits)

lemma onCharacteristicWritten_waits:
  "info \<noteq> c \<Longrightarrow> onCharacteristicWritten s info val = Inr (s', out) \<Longrightarrow> waiting c s out s'"
proof (cases "info = rxFifoChar s")
  case True
  assume "onCharacteristicWritten s info val = Inr (s', out)"
  with True have "writeInternal s = Inr (s', out)"
    by (simp add: onCharacteristicWritten_def)
  then show ?thesis by (rule writeInternal_waits)
next
  case False
  assume "info \<noteq> c" "onCharacteristicWritten s info val = Inr (s', out)"
  with False show ?thesis
    by (auto simp add: onCharacteristicWritten_def with_service_def waiting_def handles_def
        Let_def split: if_splits)
qed

lemma repeat_slot_waits:
  assumes "\<And>s s' out. h s = Inr (s', out) \<Longrightarrow> waiting c s out s'"
  shows "repeat_slot n h s = Inr (s', out) \<Longrightarrow> waiting c s out s'"
  using repeat_slot_rel [where R = "waiting c" and h = h] waiting_refl waiting_trans assms
  by blast

lemma deliver_waits:
  assumes "tevent_waits c e" and "deliver s e = Inr (s', out)"
  shows "waiting c s out s'"
proof (cases e)
  case Ctl_error
  with assms show ?thesis
    by (auto simp add: onControllerError_def with_controller_def waiting_def handles_def
        split: if_splits)
next
  case Ctl_connected
  with assms show ?thesis
    by (auto simp add: onConnected_def with_controller_def waiting_def handles_def
        split: if_splits)
next
  case (Ctl_discoveryFinished services)
  with assms show ?thesis
    by (auto simp add: onDiscoveryFinished_def waiting_def handles_def Let_def
        split: if_splits option.splits)
next
  case (Svc_error err)
  with assms repeat_slot_waits [of "\<lambda>s. onServiceError s err" c, OF onServiceError_waits]
  show ?thesis by (auto simp add: waiting_refl split: if_splits)
next
  case (Svc_stateChanged newState d)
  with assms have ns: "newState \<noteq> ServiceDiscovered" by simp
  from Svc_stateChanged assms
    repeat_slot_waits [of "\<lambda>s. onStateChanged s newState d" c, OF onStateChanged_waits [OF ns]]
  show ?thesis by (auto simp add: waiting_refl split: if_splits)
next
  case (Svc_descriptorWritten descr newValue)
  with assms
    repeat_slot_waits [of "\<lambda>s. onDescriptorWritten s descr newValue" c, OF onDescriptorWritten_waits]
  show ?thesis by (auto simp add: waiting_refl split: if_splits)
next
  case (Svc_characteristicChanged info newValue)
  with assms
    repeat_slot_waits [of "\<lambda>s. onCharacteristicChanged s info newValue" c,
      OF onCharacteristicChanged_waits]
  show ?thesis by (auto simp add: waiting_refl split: if_splits)
next
  case (Svc_characteristicRead info val)
  with assms
    repeat_slot_waits [of "\<lambda>s. onCharacteristicRead s info val" c, OF onCharacteristicRead_waits]
  show ?thesis by (auto simp add: waiting_refl split: if_splits)
next
  case (Svc_characteristicWritten info val)
  with assms have ne: "info \<noteq> c" by simp
  from Svc_characteristicWritten assms
    repeat_slot_waits [of "\<lambda>s. onCharacteristicWritten s info val" c,
      OF onCharacteristicWritten_waits [OF ne]]
  show ?thesis by (auto simp add: waiting_refl split: if_splits)
qed

lemma step_waits:
  assumes "waits c e" and "step s e = Inr (s', log)"
    and "\<forall>maxlen pending. e \<noteq> Call_readData maxlen pending"
  shows "waiting c s (effects log) s'"
proof (cases e)
  case (Call_connectToDevice remoteDeviceInfo)
  with assms show ?thesis
    by (auto simp add: waiting_def connectToDevice_def handles_def split: if_splits)
next
  case Call_close
  with assms show ?thesis
    by (auto simp add: waiting_def close_def with_controller_def handles_def
        split: if_splits sum.splits)
next
  case (Call_readData maxlen pending)
  with assms show ?thesis by simp
next
  case (Call_writeData data)
  show ?thesis
  proof (cases "writeData s data")
    case (Inl f)
    with assms Call_writeData show ?thesis by simp
  next
    case (Inr r)
    with assms Call_writeData show ?thesis
      by (auto simp add: waiting_def writeData_eq handles_def split: if_splits sum.splits
          dest!: writeInternal_cases)
  qed
next
  case Call_setRTS
  with assms show ?thesis
    by (auto simp add: waiting_def setRTS_def with_service_def handles_def
        split: if_splits sum.splits)
next
  case Call_unsetRTS
  with assms show ?thesis
    by (auto simp add: waiting_def unsetRTS_def with_service_def handles_def
        split: if_splits sum.splits)
next
  case (Transport e')
  with assms obtain out where d: "deliver s e' = Inr (s', out)" and l: "log = map Did out"
    by (auto split: sum.splits)
  from assms Transport have "tevent_waits c e'" by simp
  from deliver_waits [OF this d] l show ?thesis
    by simp
qed

lemma run_waiting:
  assumes "list_all (waits c) evs" and "run s evs = Inr (s', log)"
  shows "waiting c s (effects log) s'"
proof (rule run_rel(3) [where R = "waiting c" and ok = "waits c" and es = evs])
  show "\<And>s. waiting c s [] s" by (rule waiting_refl)
  show "\<And>s out1 s1 out2 s2. waiting c s out1 s1 \<Longrightarrow> waiting c s1 out2 s2
      \<Longrightarrow> waiting c s (out1 @ out2) s2"
    by (rule waiting_trans)
  show "\<And>maxlen pending. waits c (Call_readData maxlen pending) \<Longrightarrow> list_all (waits c) pending"
    by simp
  show "\<And>s e s' log. waits c e \<Longrightarrow> \<forall>maxlen pending. e \<noteq> Call_readData maxlen pending
      \<Longrightarrow> step s e = Inr (s', log) \<Longrightarrow> waiting c s (effects log) s'"
    using step_waits by blast
  show "\<And>s. \<not> isOpen s \<Longrightarrow> waiting c s [SetErrorString (Tr ''Cannot read while not connected''),
      Emit (Sig_error OperationError)] (s\<lparr>vsp_error := OperationError\<rparr>)"
    by (simp add: waiting_def handles_def)
  show "\<And>s n. waiting c s [] (s\<lparr>readBuffer := drop n (readBuffer s)\<rparr>)"
    by (simp add: waiting_def handles_def)
  show "\<And>s. service s \<noteq> None \<Longrightarrow>
      waiting c s [Service_writeCharacteristic (modemInChar s) (MODEM_SET_BIT (m s))] s"
    by (simp add: waiting_def handles_def)
  show "list_all (waits c) evs" by fact
  show "run s evs = Inr (s', log)" by fact
qed

lemma run_waits:
  assumes "list_all (waits c) evs" and "run s evs = Inr (s', log)" and "brspModeChar s = c"
  shows "handles s' = handles s
    \<and> (txFifoNotify s \<noteq> modemOutNotify s \<longrightarrow>
         (\<forall>v. Did (Service_writeDescriptor (txFifoNotify s) v) \<notin> set log))"
  using run_waiting [OF assms(1,2)] assms(3)
  by (simp add: waiting_def Did_in_log)

lemma onStateChanged_BlueRadios:
  assumes "m s = BlueRadios" and "service s \<noteq> None" and "resolves d BlueRadios"
  shows "\<exists>s'. onStateChanged s ServiceDiscovered d =
            Inr (s', [Service_writeCharacteristic (brspModeChar s') BRSP_MODE_DATA])
          \<and> handles s' =
              ([ValidCharacteristic (RX_FIFO (CHARACTERISTIC BlueRadios)),
                ValidCharacteristic (TX_FIFO (CHARACTERISTIC BlueRadios)),
                ValidCharacteristic (MODEM_IN (CHARACTERISTIC BlueRadios)),
                ValidCharacteristic (MODEM_OUT (CHARACTERISTIC BlueRadios)),
                ValidCharacteristic BRSP_MODE_CHARACTERISTIC],
               [ClientCharacteristicConfiguration (TX_FIFO (CHARACTERISTIC BlueRadios)),
                ClientCharacteristicConfiguration (MODEM_OUT (CHARACTERISTIC BlueRadios))])
          \<and> m s' = BlueRadios \<and> detailSlots s' = detailSlots s + 1"
  using assms
  by (auto simp add: onStateChanged_def resolves_def characteristic_def descriptor_def
      isValid_def isValidDescriptor_def handles_def Let_def simp del: CHARACTERISTIC.simps)

lemma onStateChanged_Laird:
  assumes "m s = Laird" and "service s \<noteq> None" and "resolves d Laird"
  shows "\<exists>s'. onStateChanged s ServiceDiscovered d =
            Inr (s', [Service_writeDescriptor (txFifoNotify s') DESC_NOTIFY_ON])
          \<and> txFifoNotify s' = ClientCharacteristicConfiguration (TX_FIFO (CHARACTERISTIC Laird))
          \<and> m s' = Laird \<and> detailSlots s' = detailSlots s + 1"
  using assms
  by (auto simp add: onStateChanged_def resolves_def characteristic_def descriptor_def
      isValid_def isValidDescriptor_def Let_def simp del: CHARACTERISTIC.simps)

text \<open>
  C8: for BlueRadios, the lambda that runs when the service details are discovered
  writes the mode switch payload to the mode characteristic and nothing else; from then
  on, whatever is called and whatever the transport signals short of the confirmation
  of that write, nothing is written to the TX FIFO descriptor, and the confirmation
  then writes notify-on to it. For Laird the same lambda writes notify-on to the TX FIFO
  descriptor directly, and no characteristic.
\<close>

theorem mode_switch_first:
  "(m s = BlueRadios \<and> service s \<noteq> None \<and> resolves d BlueRadios \<longrightarrow>
      (\<exists>s'. onStateChanged s ServiceDiscovered d =
              Inr (s', [Service_writeCharacteristic (brspModeChar s') BRSP_MODE_DATA])
         \<and> brspModeChar s' = ValidCharacteristic BRSP_MODE_CHARACTERISTIC
         \<and> txFifoNotify s' = ClientCharacteristicConfiguration (TX_FIFO (CHARACTERISTIC BlueRadios))
         \<and> (\<forall>evs s'' log.
               list_all (waits (brspModeChar s')) evs \<and> run s' evs = Inr (s'', log) \<longrightarrow>
                 (\<forall>v. Did (Service_writeDescriptor (txFifoNotify s') v) \<notin> set log)
                 \<and> (service s'' \<noteq> None \<longrightarrow>
                      (\<forall>val. onCharacteristicWritten s'' (brspModeChar s') val =
                         Inr (s'', [Service_writeDescriptor (txFifoNotify s') DESC_NOTIFY_ON]))))))
   \<and> (m s = Laird \<and> service s \<noteq> None \<and> resolves d Laird \<longrightarrow>
      (\<exists>s'. onStateChanged s ServiceDiscovered d =
              Inr (s', [Service_writeDescriptor (txFifoNotify s') DESC_NOTIFY_ON])
         \<and> txFifoNotify s' = ClientCharacteristicConfiguration (TX_FIFO (CHARACTERISTIC Laird))))"
proof (intro conjI impI)
  assume a: "m s = BlueRadios \<and> service s \<noteq> None \<and> resolves d BlueRadios"
  then obtain s' where
    st: "onStateChanged s ServiceDiscovered d =
            Inr (s', [Service_writeCharacteristic (brspModeChar s') BRSP_MODE_DATA])"
    and h: "handles s' =
              ([ValidCharacteristic (RX_FIFO (CHARACTERISTIC BlueRadios)),
                ValidCharacteristic (TX_FIFO (CHARACTERISTIC BlueRadios)),
                ValidCharacteristic (MODEM_IN (CHARACTERISTIC BlueRadios)),
                ValidCharacteristic (MODEM_OUT (CHARACTERISTIC BlueRadios)),
                ValidCharacteristic BRSP_MODE_CHARACTERISTIC],
               [ClientCharacteristicConfiguration (TX_FIFO (CHARACTERISTIC BlueRadios)),
                ClientCharacteristicConfiguration (MODEM_OUT (CHARACTERISTIC BlueRadios))])"
    using onStateChanged_BlueRadios [of s d] by blast
  from h have ne: "txFifoNotify s' \<noteq> modemOutNotify s'"
    by (simp add: handles_def)
  have later: "(\<forall>v. Did (Service_writeDescriptor (txFifoNotify s') v) \<notin> set log)
      \<and> (service s'' \<noteq> None \<longrightarrow>
           (\<forall>val. onCharacteristicWritten s'' (brspModeChar s') val =
              Inr (s'', [Service_writeDescriptor (txFifoNotify s') DESC_NOTIFY_ON])))"
    if w: "list_all (waits (brspModeChar s')) evs \<and> run s' evs = Inr (s'', log)"
    for evs s'' log
  proof -
    from w run_waits [of "brspModeChar s'" evs s' s'' log] ne
    have h2: "handles s'' = handles s'"
      and n: "\<forall>v. Did (Service_writeDescriptor (txFifoNotify s') v) \<notin> set log"
      by simp_all
    from h h2 have "onCharacteristicWritten s'' (brspModeChar s') val =
        Inr (s'', [Service_writeDescriptor (txFifoNotify s') DESC_NOTIFY_ON])"
      if "service s'' \<noteq> None" for val
      using that
      by (auto simp add: onCharacteristicWritten_def with_service_def handles_def
          BRSP_MODE_CHARACTERISTIC_def)
    with n show ?thesis by blast
  qed
  from st h later
  show "\<exists>s'. onStateChanged s ServiceDiscovered d =
              Inr (s', [Service_writeCharacteristic (brspModeChar s') BRSP_MODE_DATA])
         \<and> brspModeChar s' = ValidCharacteristic BRSP_MODE_CHARACTERISTIC
         \<and> txFifoNotify s' = ClientCharacteristicConfiguration (TX_FIFO (CHARACTERISTIC BlueRadios))
         \<and> (\<forall>evs s'' log.
               list_all (waits (brspModeChar s')) evs \<and> run s' evs = Inr (s'', log) \<longrightarrow>
                 (\<forall>v. Did (Service_writeDescriptor (txFifoNotify s') v) \<notin> set log)
                 \<and> (service s'' \<noteq> None \<longrightarrow>
                      (\<forall>val. onCharacteristicWritten s'' (brspModeChar s') val =
                         Inr (s'', [Service_writeDescriptor (txFifoNotify s') DESC_NOTIFY_ON]))))"
    by (intro exI [of _ s']) (simp add: handles_def)
next
  assume "m s = Laird \<and> service s \<noteq> None \<and> resolves d Laird"
  then show "\<exists>s'. onStateChanged s ServiceDiscovered d =
              Inr (s', [Service_writeDescriptor (txFifoNotify s') DESC_NOTIFY_ON])
         \<and> txFifoNotify s' = ClientCharacteristicConfiguration (TX_FIFO (CHARACTERISTIC Laird))"
    using onStateChanged_Laird [of s d] by blast
qed

theorem mode_switch_first_witness:
  "m blueradios_discovered = BlueRadios \<and> service blueradios_discovered \<noteq> None
   \<and> resolves blueradios_details BlueRadios
   \<and> onStateChanged blueradios_discovered ServiceDiscovered blueradios_details =
       Inr (blueradios_resolving,
            [Service_writeCharacteristic (ValidCharacteristic BRSP_MODE_CHARACTERISTIC) BRSP_MODE_DATA])
   \<and> list_all (waits (brspModeChar blueradios_resolving)) blueradios_wait
   \<and> run blueradios_resolving blueradios_wait = Inr (blueradios_resolving\<lparr>readBuffer := [7]\<rparr>, [])
   \<and> service (blueradios_resolving\<lparr>readBuffer := [7]\<rparr>) \<noteq> None
   \<and> onCharacteristicWritten (blueradios_resolving\<lparr>readBuffer := [7]\<rparr>)
         (brspModeChar blueradios_resolving) [1] =
       Inr (blueradios_resolving\<lparr>readBuffer := [7]\<rparr>,
            [Service_writeDescriptor (txFifoNotify blueradios_resolving) DESC_NOTIFY_ON])
   \<and> m laird_discovered = Laird \<and> service laird_discovered \<noteq> None
   \<and> resolves laird_details Laird
   \<and> (\<exists>s'. onStateChanged laird_discovered ServiceDiscovered laird_details =
              Inr (s', [Service_writeDescriptor (txFifoNotify s') DESC_NOTIFY_ON])
         \<and> txFifoNotify s' = ClientCharacteristicConfiguration (TX_FIFO (CHARACTERISTIC Laird)))"
proof -
  have pre: "m blueradios_discovered = BlueRadios \<and> service blueradios_discovered \<noteq> None
      \<and> resolves blueradios_details BlueRadios"
    by (simp add: blueradios_discovered_def blueradios_details_def resolves_def
        BRSP_MODE_CHARACTERISTIC_def)
  have st: "onStateChanged blueradios_discovered ServiceDiscovered blueradios_details =
       Inr (blueradios_resolving,
            [Service_writeCharacteristic (ValidCharacteristic BRSP_MODE_CHARACTERISTIC) BRSP_MODE_DATA])"
    by (simp add: eval_defs blueradios_discovered_def blueradios_details_def
        blueradios_resolving_def BRSP_MODE_CHARACTERISTIC_def)
  have w: "list_all (waits (brspModeChar blueradios_resolving)) blueradios_wait"
    by (simp add: blueradios_wait_def)
  have r: "run blueradios_resolving blueradios_wait = Inr (blueradios_resolving\<lparr>readBuffer := [7]\<rparr>, [])"
    by (simp add: eval_defs blueradios_wait_def blueradios_resolving_def blueradios_discovered_def
        BRSP_MODE_CHARACTERISTIC_def)
  have srv: "service (blueradios_resolving\<lparr>readBuffer := [7]\<rparr>) \<noteq> None"
    by (simp add: blueradios_resolving_def blueradios_discovered_def)
  have pre2: "m laird_discovered = Laird \<and> service laird_discovered \<noteq> None
      \<and> resolves laird_details Laird"
    by (simp add: laird_discovered_def laird_details_def resolves_def QVSPSocket_default_def
        QVSPSocket_def)
  from mode_switch_first [of blueradios_discovered blueradios_details] pre
  obtain s' where
    e: "onStateChanged blueradios_discovered ServiceDiscovered blueradios_details =
              Inr (s', [Service_writeCharacteristic (brspModeChar s') BRSP_MODE_DATA])"
    and l: "\<forall>evs s'' log.
          list_all (waits (brspModeChar s')) evs \<and> run s' evs = Inr (s'', log) \<longrightarrow>
          (\<forall>v. Did (Service_writeDescriptor (txFifoNotify s') v) \<notin> set log)
          \<and> (service s'' \<noteq> None \<longrightarrow>
               (\<forall>val. onCharacteristicWritten s'' (brspModeChar s') val =
                  Inr (s'', [Service_writeDescriptor (txFifoNotify s') DESC_NOTIFY_ON])))"
    by blast
  from e st have "s' = blueradios_resolving" by simp
  with l have "\<forall>evs s'' log.
          list_all (waits (brspModeChar blueradios_resolving)) evs
            \<and> run blueradios_resolving evs = Inr (s'', log) \<longrightarrow>
          (\<forall>v. Did (Service_writeDescriptor (txFifoNotify blueradios_resolving) v) \<notin> set log)
          \<and> (service s'' \<noteq> None \<longrightarrow>
               (\<forall>val. onCharacteristicWritten s'' (brspModeChar blueradios_resolving) val =
                  Inr (s'', [Service_writeDescriptor (txFifoNotify blueradios_resolving) DESC_NOTIFY_ON])))"
    by simp
  with w r srv have cw: "onCharacteristicWritten (blueradios_resolving\<lparr>readBuffer := [7]\<rparr>)
         (brspModeChar blueradios_resolving) [1] =
       Inr (blueradios_resolving\<lparr>readBuffer := [7]\<rparr>,
            [Service_writeDescriptor (txFifoNotify blueradios_resolving) DESC_NOTIFY_ON])"
    by blast
  from mode_switch_first [of laird_discovered laird_details] pre2
  have "\<exists>s'. onStateChanged laird_discovered ServiceDiscovered laird_details =
              Inr (s', [Service_writeDescriptor (txFifoNotify s') DESC_NOTIFY_ON])
         \<and> txFifoNotify s' = ClientCharacteristicConfiguration (TX_FIFO (CHARACTERISTIC Laird))"
    by blast
  with pre st w r srv cw pre2 show ?thesis by blast
qed

subsection \<open>The bytes written reach RX FIFO in order\<close>

text \<open>
  C1 fails on the code: \<^verbatim>\<open>writeInternal\<close> emits \<^verbatim>\<open>bytesWritten\<close> after it has handed
  the chunk to RX FIFO and before it removes the chunk from the write buffer. On the
  connected socket with an empty write buffer, \<^verbatim>\<open>write\<close> of the bytes 1, 2, 3, with a
  slot on \<^verbatim>\<open>bytesWritten\<close> that writes the bytes 4, 5, hands 1, 2, 3 and then
  1, 2, 3, 4, 5 to RX FIFO: the first chunk is handed over twice. Both calls are
  accepted, and the write buffer is empty afterwards.
\<close>

theorem nested_write_resends:
  "writeData_slot (slot_writes [4, 5]) laird_connected [1, 2, 3] =
     Inr (3, laird_connected,
          [Service_writeCharacteristic (ValidCharacteristic ''569a2001-b87f-490c-92cb-11ba5ea5167c'')
             [1, 2, 3],
           Emit (Sig_bytesWritten 3),
           Service_writeCharacteristic (ValidCharacteristic ''569a2001-b87f-490c-92cb-11ba5ea5167c'')
             [1, 2, 3, 4, 5],
           Emit (Sig_bytesWritten 5)])
   \<and> writeData (laird_connected\<lparr>writeBuffer := [1, 2, 3]\<rparr>) [4, 5] =
     Inr (2, laird_connected,
          [Service_writeCharacteristic (ValidCharacteristic ''569a2001-b87f-490c-92cb-11ba5ea5167c'')
             [1, 2, 3, 4, 5],
           Emit (Sig_bytesWritten 5)])
   \<and> concat (written_to (rxFifoChar laird_connected)
        [Service_writeCharacteristic (ValidCharacteristic ''569a2001-b87f-490c-92cb-11ba5ea5167c'')
           [1, 2, 3],
         Emit (Sig_bytesWritten 3),
         Service_writeCharacteristic (ValidCharacteristic ''569a2001-b87f-490c-92cb-11ba5ea5167c'')
           [1, 2, 3, 4, 5],
         Emit (Sig_bytesWritten 5)]) = [1, 2, 3, 1, 2, 3, 4, 5]"
  by (simp add: eval_defs writeData_slot_def writeInternal_slot_def slot_writes_def)

text \<open>
  With 20 bytes in the first write and 5 in the write from the slot, the 20 bytes are
  handed to RX FIFO twice, and the \<^verbatim>\<open>remove\<close> of the outer call then takes the 5 bytes
  out of the write buffer: they are never handed to RX FIFO.
\<close>

lemma nested_write_drops:
  "writeData_slot (slot_writes [21, 22, 23, 24, 25]) laird_connected
     [1, 2, 3, 4, 5, 6, 7, 8, 9, 10, 11, 12, 13, 14, 15, 16, 17, 18, 19, 20] =
     Inr (20, laird_connected,
          [Service_writeCharacteristic (ValidCharacteristic ''569a2001-b87f-490c-92cb-11ba5ea5167c'')
             [1, 2, 3, 4, 5, 6, 7, 8, 9, 10, 11, 12, 13, 14, 15, 16, 17, 18, 19, 20],
           Emit (Sig_bytesWritten 20),
           Service_writeCharacteristic (ValidCharacteristic ''569a2001-b87f-490c-92cb-11ba5ea5167c'')
             [1, 2, 3, 4, 5, 6, 7, 8, 9, 10, 11, 12, 13, 14, 15, 16, 17, 18, 19, 20],
           Emit (Sig_bytesWritten 20)])"
  by (simp add: eval_defs writeData_slot_def writeInternal_slot_def slot_writes_def Let_def)

lemma written_to_append: "written_to c (xs @ ys) = written_to c xs @ written_to c ys"
  by (induction c xs rule: written_to.induct) simp_all

lemma conserving_refl: "conserving s [] s"
  by (simp add: conserving_def)

lemma conserving_trans:
  "conserving s out1 s1 \<Longrightarrow> conserving s1 out2 s2 \<Longrightarrow> conserving s (out1 @ out2) s2"
  by (auto simp add: conserving_def handles_def written_to_append)

lemma writeInternal_conserving: "writeInternal s = Inr (s', out) \<Longrightarrow> conserving s out s'"
  by (drule writeInternal_cases)
    (auto simp add: conserving_def handles_def isOpen_def take_drop_min)

lemma onServiceError_conserving: "onServiceError s err = Inr (s', out) \<Longrightarrow> conserving s out s'"
  by (cases err) (auto simp add: onServiceError_def conserving_def handles_def isOpen_def)

lemma onStateChanged_conserving:
  "newState \<noteq> ServiceDiscovered \<Longrightarrow> onStateChanged s newState d = Inr (s', out)
   \<Longrightarrow> conserving s out s'"
  by (auto simp add: onStateChanged_def conserving_def)

lemma onDescriptorWritten_conserving:
  "onDescriptorWritten s descr newValue = Inr (s', out) \<Longrightarrow> conserving s out s'"
  by (auto simp add: onDescriptorWritten_def with_service_def conserving_def split: if_splits)

lemma onCharacteristicChanged_conserving:
  assumes "onCharacteristicChanged s info newValue = Inr (s', out)"
  shows "conserving s out s'"
proof (cases "info \<noteq> txFifoChar s \<and> info = modemOutChar s")
  case True
  with assms have "writeInternal (s\<lparr>cts := (newValue = MODEM_SET_BIT (m s))\<rparr>) = Inr (s', out)"
    by (auto simp add: onCharacteristicChanged_def)
  from writeInternal_conserving [OF this] show ?thesis
    by (simp add: conserving_def handles_def isOpen_def)
next
  case False
  with assms show ?thesis
    by (auto simp add: onCharacteristicChanged_def with_service_def then_do_Inr conserving_def
        handles_def isOpen_def Let_def split: if_splits)
qed

lemma onCharacteristicRead_conserving:
  "onCharacteristicRead s info val = Inr (s', out) \<Longrightarrow> conserving s out s'"
  by (auto simp add: onCharacteristicRead_def conserving_def handles_def isOpen_def
      split: if_splits)

lemma onCharacteristicWritten_conserving:
  assumes "onCharacteristicWritten s info val = Inr (s', out)"
  shows "conserving s out s'"
proof (cases "info = rxFifoChar s")
  case True
  with assms have "writeInternal s = Inr (s', out)"
    by (simp add: onCharacteristicWritten_def)
  then show ?thesis by (rule writeInternal_conserving)
next
  case False
  with assms show ?thesis
    by (auto simp add: onCharacteristicWritten_def with_service_def conserving_def handles_def
        isOpen_def Let_def split: if_splits)
qed

lemma repeat_slot_conserving:
  assumes "\<And>s s' out. h s = Inr (s', out) \<Longrightarrow> conserving s out s'"
  shows "repeat_slot n h s = Inr (s', out) \<Longrightarrow> conserving s out s'"
  using repeat_slot_rel [where R = conserving and h = h] conserving_refl conserving_trans assms
  by blast

lemma deliver_conserving:
  assumes "tevent_connected e" and "deliver s e = Inr (s', out)"
  shows "conserving s out s'"
proof (cases e)
  case Ctl_error
  with assms show ?thesis
    by (auto simp add: onControllerError_def with_controller_def conserving_def handles_def
        isOpen_def split: if_splits)
next
  case Ctl_connected
  with assms show ?thesis
    by (auto simp add: onConnected_def with_controller_def conserving_def handles_def
        split: if_splits)
next
  case (Ctl_discoveryFinished services)
  with assms show ?thesis
    by (auto simp add: onDiscoveryFinished_def conserving_def handles_def isOpen_def Let_def
        split: if_splits option.splits)
next
  case (Svc_error err)
  with assms repeat_slot_conserving [of "\<lambda>s. onServiceError s err", OF onServiceError_conserving]
  show ?thesis by (auto simp add: conserving_refl split: if_splits)
next
  case (Svc_stateChanged newState d)
  with assms have ns: "newState \<noteq> ServiceDiscovered" by simp
  from Svc_stateChanged assms
    repeat_slot_conserving [of "\<lambda>s. onStateChanged s newState d",
      OF onStateChanged_conserving [OF ns]]
  show ?thesis by (auto simp add: conserving_refl split: if_splits)
next
  case (Svc_descriptorWritten descr newValue)
  with assms
    repeat_slot_conserving [of "\<lambda>s. onDescriptorWritten s descr newValue",
      OF onDescriptorWritten_conserving]
  show ?thesis by (auto simp add: conserving_refl split: if_splits)
next
  case (Svc_characteristicChanged info newValue)
  with assms
    repeat_slot_conserving [of "\<lambda>s. onCharacteristicChanged s info newValue",
      OF onCharacteristicChanged_conserving]
  show ?thesis by (auto simp add: conserving_refl split: if_splits)
next
  case (Svc_characteristicRead info val)
  with assms
    repeat_slot_conserving [of "\<lambda>s. onCharacteristicRead s info val",
      OF onCharacteristicRead_conserving]
  show ?thesis by (auto simp add: conserving_refl split: if_splits)
next
  case (Svc_characteristicWritten info val)
  with assms
    repeat_slot_conserving [of "\<lambda>s. onCharacteristicWritten s info val",
      OF onCharacteristicWritten_conserving]
  show ?thesis by (auto simp add: conserving_refl split: if_splits)
qed

lemma repeat_slot_total:
  assumes "\<And>s. P s \<Longrightarrow> \<exists>s' out. h s = Inr (s', out) \<and> P s'"
  shows "P s \<Longrightarrow> \<exists>s' out. repeat_slot n h s = Inr (s', out) \<and> P s'"
proof (induction n arbitrary: s)
  case 0
  then show ?case by simp
next
  case (Suc n)
  from assms [OF Suc.prems] obtain s1 out1 where "h s = Inr (s1, out1)" "P s1" by blast
  moreover from Suc.IH [OF \<open>P s1\<close>] obtain s2 out2 where
    "repeat_slot n h s1 = Inr (s2, out2)" "P s2" by blast
  ultimately show ?case by (auto simp add: then_do_Inr)
qed

lemma writeInternal_served:
  "service s \<noteq> None \<Longrightarrow> \<exists>s' out. writeInternal s = Inr (s', out) \<and> service s' \<noteq> None"
  by (auto simp add: writeInternal_eq with_service_def Let_def)

lemma onServiceError_served:
  "service s \<noteq> None \<Longrightarrow> \<exists>s' out. onServiceError s err = Inr (s', out) \<and> service s' \<noteq> None"
  by (auto simp add: onServiceError_def)

lemma onStateChanged_served:
  "service s \<noteq> None
   \<Longrightarrow> \<exists>s' out. onStateChanged s newState d = Inr (s', out) \<and> service s' \<noteq> None"
  by (auto simp add: onStateChanged_def cannotRetrieve_def Let_def)

lemma onDescriptorWritten_served:
  "service s \<noteq> None
   \<Longrightarrow> \<exists>s' out. onDescriptorWritten s descr newValue = Inr (s', out) \<and> service s' \<noteq> None"
  by (auto simp add: onDescriptorWritten_def with_service_def)

lemma onCharacteristicChanged_served:
  assumes "service s \<noteq> None"
  shows "\<exists>s' out. onCharacteristicChanged s info newValue = Inr (s', out) \<and> service s' \<noteq> None"
proof -
  consider (tx) "info = txFifoChar s"
    | (cts) "info \<noteq> txFifoChar s" "info = modemOutChar s"
    | (other) "info \<noteq> txFifoChar s" "info \<noteq> modemOutChar s"
    by blast
  then show ?thesis
  proof cases
    case tx
    from assms obtain y where "service s = Some y" by auto
    with tx show ?thesis
      by (simp add: onCharacteristicChanged_def with_service_def then_do_def Let_def)
  next
    case cts
    with assms writeInternal_served [of "s\<lparr>cts := (newValue = MODEM_SET_BIT (m s))\<rparr>"]
    show ?thesis
      by (simp add: onCharacteristicChanged_def)
  next
    case other
    with assms show ?thesis
      by (simp add: onCharacteristicChanged_def)
  qed
qed

lemma onCharacteristicRead_served:
  "service s \<noteq> None
   \<Longrightarrow> \<exists>s' out. onCharacteristicRead s info val = Inr (s', out) \<and> service s' \<noteq> None"
  by (auto simp add: onCharacteristicRead_def)

lemma onCharacteristicWritten_served:
  assumes "service s \<noteq> None"
  shows "\<exists>s' out. onCharacteristicWritten s info val = Inr (s', out) \<and> service s' \<noteq> None"
proof (cases "info = rxFifoChar s")
  case True
  with assms writeInternal_served [of s] show ?thesis
    by (auto simp add: onCharacteristicWritten_def)
next
  case False
  with assms show ?thesis
    by (auto simp add: onCharacteristicWritten_def with_service_def Let_def)
qed

lemma deliver_served:
  assumes "service s \<noteq> None"
  shows "\<exists>s' out. deliver s e = Inr (s', out) \<and> service s' \<noteq> None"
proof (cases e)
  case Ctl_error
  with assms show ?thesis
    by (auto simp add: onControllerError_def with_controller_def)
next
  case Ctl_connected
  with assms show ?thesis
    by (auto simp add: onConnected_def with_controller_def)
next
  case (Ctl_discoveryFinished services)
  with assms show ?thesis
    by (auto simp add: onDiscoveryFinished_def Let_def split: option.splits)
next
  case (Svc_error err)
  with assms
    repeat_slot_total [of "\<lambda>s. service s \<noteq> None" "\<lambda>s. onServiceError s err",
      OF onServiceError_served]
  show ?thesis by auto
next
  case (Svc_stateChanged newState d)
  with assms
    repeat_slot_total [of "\<lambda>s. service s \<noteq> None" "\<lambda>s. onStateChanged s newState d",
      OF onStateChanged_served]
  show ?thesis by auto
next
  case (Svc_descriptorWritten descr newValue)
  with assms
    repeat_slot_total [of "\<lambda>s. service s \<noteq> None" "\<lambda>s. onDescriptorWritten s descr newValue",
      OF onDescriptorWritten_served]
  show ?thesis by auto
next
  case (Svc_characteristicChanged info newValue)
  with assms
    repeat_slot_total [of "\<lambda>s. service s \<noteq> None"
      "\<lambda>s. onCharacteristicChanged s info newValue", OF onCharacteristicChanged_served]
  show ?thesis by auto
next
  case (Svc_characteristicRead info val)
  with assms
    repeat_slot_total [of "\<lambda>s. service s \<noteq> None" "\<lambda>s. onCharacteristicRead s info val",
      OF onCharacteristicRead_served]
  show ?thesis by auto
next
  case (Svc_characteristicWritten info val)
  with assms
    repeat_slot_total [of "\<lambda>s. service s \<noteq> None" "\<lambda>s. onCharacteristicWritten s info val",
      OF onCharacteristicWritten_served]
  show ?thesis by auto
qed

lemma write_returns_Did [simp]: "write_returns (map Did out) = []"
  by (induction out) simp_all

lemma write_returns_append [simp]:
  "write_returns (xs @ ys) = write_returns xs @ write_returns ys"
  by (induction xs rule: write_returns.induct) simp_all

lemma rx_chunks_append: "rx_chunks c (xs @ ys) = rx_chunks c xs @ rx_chunks c ys"
  by (simp add: rx_chunks_def written_to_append)


lemma submitted_Nil [simp]: "submitted [] = []"
  by (simp add: submitted_def)

lemma submitted_Cons: "submitted (e # es) = submitted [e] @ submitted es"
  by (simp add: submitted_def)

lemma submitted_readData [simp]: "submitted [Call_readData maxlen pending] = submitted pending"
  by (simp add: submitted_def)

lemma submitted_writeData [simp]: "submitted [Call_writeData data] = [data]"
  by (simp add: submitted_def)

lemma submitted_other [simp]:
  "submitted [Call_connectToDevice i] = []" "submitted [Call_close] = []"
  "submitted [Call_setRTS] = []" "submitted [Call_unsetRTS] = []" "submitted [Transport t] = []"
  by (simp_all add: submitted_def)

lemma write_returns_ReadReturned [simp]:
  "write_returns (log @ [ReadReturned res data]) = write_returns log"
  by simp

lemma rx_chunks_ReadReturned [simp]:
  "rx_chunks c (log @ [ReadReturned res data]) = rx_chunks c log"
  by (simp add: rx_chunks_def)

lemma step_connected:
  assumes ce: "connected_event e" and op: "isOpen s" and srv: "service s \<noteq> None"
    and ne: "rxFifoChar s \<noteq> modemInChar s"
    and fits: "int (length (writeBuffer s)) + int (length (concat (submitted [e]))) + 1
      \<le> maxBufferSize s"
    and nr: "\<forall>maxlen pending. e \<noteq> Call_readData maxlen pending"
  shows "\<exists>s' log. step s e = Inr (s', log) \<and> isOpen s' \<and> service s' \<noteq> None
      \<and> handles s' = handles s \<and> maxBufferSize s' = maxBufferSize s
      \<and> write_returns log = map (int \<circ> length) (submitted [e])
      \<and> concat (rx_chunks (rxFifoChar s) log) @ writeBuffer s'
          = writeBuffer s @ concat (submitted [e])
      \<and> (\<forall>c \<in> set (rx_chunks (rxFifoChar s) log). length c \<le> 20)"
proof (cases e)
  case (Call_connectToDevice remoteDeviceInfo)
  with op srv show ?thesis
    by (simp add: connectToDevice_def rx_chunks_def)
next
  case Call_close
  with ce show ?thesis by simp
next
  case (Call_readData maxlen pending)
  with nr show ?thesis by simp
next
  case (Call_writeData data)
  let ?s1 = "s\<lparr>writeBuffer := writeBuffer s @ data\<rparr>"
  from srv writeInternal_served [of ?s1] obtain s' out where
    w: "writeInternal ?s1 = Inr (s', out)" and srv': "service s' \<noteq> None"
    by auto
  from writeInternal_conserving [OF w] ne op
  have c: "handles s' = handles s" "maxBufferSize s' = maxBufferSize s" "isOpen s'"
    "concat (written_to (rxFifoChar s) out) @ writeBuffer s' = writeBuffer s @ data"
    "\<forall>c \<in> set (written_to (rxFifoChar s) out). length c \<le> 20"
    by (simp_all add: conserving_def handles_def isOpen_def)
  from Call_writeData op fits w srv' c show ?thesis
    by (simp add: writeData_eq rx_chunks_def)
next
  case Call_setRTS
  with op srv ne show ?thesis
    by (auto simp add: setRTS_def with_service_def rx_chunks_def)
next
  case Call_unsetRTS
  with op srv ne show ?thesis
    by (auto simp add: unsetRTS_def with_service_def rx_chunks_def)
next
  case (Transport e')
  from deliver_served [OF srv, of e'] obtain s' out where
    d: "deliver s e' = Inr (s', out)" and srv': "service s' \<noteq> None"
    by blast
  from ce Transport have "tevent_connected e'" by simp
  from deliver_conserving [OF this d] ne op
  have c: "handles s' = handles s" "maxBufferSize s' = maxBufferSize s" "isOpen s'"
    "concat (written_to (rxFifoChar s) out) @ writeBuffer s' = writeBuffer s"
    "\<forall>c \<in> set (written_to (rxFifoChar s) out). length c \<le> 20"
    by (simp_all add: conserving_def)
  from Transport d srv' c show ?thesis
    by (simp add: rx_chunks_def)
qed


lemma step_connected_delivers:
  assumes "connected_event e" and "ready s (concat (submitted [e]))"
    and "\<forall>maxlen pending. e \<noteq> Call_readData maxlen pending"
  shows "\<exists>s' log. step s e = Inr (s', log) \<and> delivers s (submitted [e]) s' log"
  using step_connected [of e s] assms
  by (simp add: ready_def delivers_def)

lemma run_connected_all:
  shows "list_all connected_event pending \<Longrightarrow> ready s (concat (submitted pending))
      \<Longrightarrow> \<exists>r s' log. readData s maxlen pending = Inr (r, s', log)
            \<and> delivers s (submitted pending) s' log"
    and "connected_event e \<Longrightarrow> ready s (concat (submitted [e]))
      \<Longrightarrow> \<exists>s' log. step s e = Inr (s', log) \<and> delivers s (submitted [e]) s' log"
    and "list_all connected_event es \<Longrightarrow> ready s (concat (submitted es))
      \<Longrightarrow> \<exists>s' log. run s es = Inr (s', log) \<and> delivers s (submitted es) s' log"
proof (induction s maxlen pending and s e and s es rule: readData_step_run.induct)
  case (1 s maxlen pending)
  from "1.prems"(2) have op: "isOpen s" and ne: "rxFifoChar s \<noteq> modemInChar s"
    by (simp_all add: ready_def)
  from "1.IH" [OF _ "1.prems"] op obtain s1 log1 where
    r: "run s pending = Inr (s1, log1)" and d: "delivers s (submitted pending) s1 log1"
    by auto
  from d ne have ne1: "modemInChar s1 \<noteq> rxFifoChar s" and srv1: "service s1 \<noteq> None"
    by (auto simp add: delivers_def handles_def)
  let ?s' = "s1\<lparr>readBuffer := drop maxlen (readBuffer s1)\<rparr>"
  let ?log = "log1 @ (if \<not> rts s1
                 \<and> int (length (drop maxlen (readBuffer s1))) + 20 + 1 \<le> maxBufferSize s1
              then [Did (Service_writeCharacteristic (modemInChar s1) (MODEM_SET_BIT (m s1)))]
              else [])"
  from op r srv1
  have "readData s maxlen pending =
      Inr ((int (length (take maxlen (readBuffer s1))), take maxlen (readBuffer s1)), ?s', ?log)"
    unfolding readData.simps Let_def drop_length_take
    by (auto simp add: PACKET_SIZE_def)
  moreover from d ne1 have "delivers s (submitted pending) ?s' ?log"
    by (simp add: delivers_def handles_def isOpen_def rx_chunks_def written_to_append)
  ultimately show ?case by blast
next
  case (4 s maxlen pending)
  from "4.prems" have "list_all connected_event pending"
    and "ready s (concat (submitted pending))"
    by simp_all
  from "4.IH" [OF this] obtain r s' log where
    "readData s maxlen pending = Inr (r, s', log)" "delivers s (submitted pending) s' log"
    by blast
  then show ?case
    by (cases r) (simp add: delivers_def)
next
  case (9 s)
  then show ?case
    by (simp add: delivers_def ready_def rx_chunks_def)
next
  case (10 s e es)
  from "10.prems"(1) have ce: "connected_event e" and ces: "list_all connected_event es"
    by simp_all
  have sub: "submitted (e # es) = submitted [e] @ submitted es"
    by (rule submitted_Cons)
  from "10.prems"(2) sub have rdy1: "ready s (concat (submitted [e]))"
    by (simp add: ready_def)
  from "10.IH"(1) [OF ce rdy1] obtain s1 log1 where
    st: "step s e = Inr (s1, log1)" and d1: "delivers s (submitted [e]) s1 log1"
    by blast
  from d1 have h1: "handles s1 = handles s" and mx1: "maxBufferSize s1 = maxBufferSize s"
    and cons1: "concat (rx_chunks (rxFifoChar s) log1) @ writeBuffer s1
          = writeBuffer s @ concat (submitted [e])"
    by (simp_all add: delivers_def)
  from h1 have rx1: "rxFifoChar s1 = rxFifoChar s" and mi1: "modemInChar s1 = modemInChar s"
    by (simp_all add: handles_def)
  from cons1 have "length (concat (rx_chunks (rxFifoChar s) log1) @ writeBuffer s1)
      = length (writeBuffer s @ concat (submitted [e]))"
    by simp
  then have "length (writeBuffer s1) \<le> length (writeBuffer s) + length (concat (submitted [e]))"
    by simp
  with "10.prems"(2) sub mx1 d1 rx1 mi1 have rdy2: "ready s1 (concat (submitted es))"
    by (simp add: ready_def delivers_def)
  from "10.IH"(2) [OF st _ ces rdy2] obtain s2 log2 where
    r: "run s1 es = Inr (s2, log2)" and d2: "delivers s1 (submitted es) s2 log2"
    by auto
  from st r have run: "run s (e # es) = Inr (s2, log1 @ log2)"
    by simp
  from d2 have cons2: "concat (rx_chunks (rxFifoChar s1) log2) @ writeBuffer s2
          = writeBuffer s1 @ concat (submitted es)"
    by (simp add: delivers_def)
  have "concat (rx_chunks (rxFifoChar s) (log1 @ log2)) @ writeBuffer s2
      = concat (rx_chunks (rxFifoChar s) log1) @ (concat (rx_chunks (rxFifoChar s1) log2) @ writeBuffer s2)"
    by (simp add: rx_chunks_append rx1)
  also have "\<dots> = concat (rx_chunks (rxFifoChar s) log1) @ writeBuffer s1 @ concat (submitted es)"
    by (simp only: cons2)
  also have "\<dots> = writeBuffer s @ concat (submitted [e]) @ concat (submitted es)"
    using cons1 by (metis append_assoc)
  finally have cons: "concat (rx_chunks (rxFifoChar s) (log1 @ log2)) @ writeBuffer s2
      = writeBuffer s @ concat (submitted (e # es))"
    by (simp add: sub)
  from d1 d2 rx1 cons have "delivers s (submitted (e # es)) s2 (log1 @ log2)"
    by (auto simp add: delivers_def rx_chunks_append sub)
  with run show ?case by blast
qed (rule step_connected_delivers, assumption, assumption, simp)+

lemma run_connected:
  assumes "list_all connected_event evs" and "isOpen s" and "service s \<noteq> None"
    and "rxFifoChar s \<noteq> modemInChar s"
    and "int (length (writeBuffer s)) + int (length (concat (submitted evs))) + 1
      \<le> maxBufferSize s"
  shows "\<exists>s' log. run s evs = Inr (s', log) \<and> isOpen s' \<and> service s' \<noteq> None
      \<and> handles s' = handles s \<and> maxBufferSize s' = maxBufferSize s
      \<and> write_returns log = map (int \<circ> length) (submitted evs)
      \<and> concat (rx_chunks (rxFifoChar s) log) @ writeBuffer s'
          = writeBuffer s @ concat (submitted evs)
      \<and> (\<forall>c \<in> set (rx_chunks (rxFifoChar s) log). length c \<le> 20)"
  using run_connected_all(3) [of evs s] assms
  by (simp add: ready_def delivers_def)

lemma writeInternal_drains:
  assumes "sending r k s"
  shows "\<exists>s' out. writeInternal s = Inr (s', out) \<and> sending r k s'
      \<and> length (writeBuffer s') \<le> length (writeBuffer s) - 1"
  using assms
  by (auto simp add: writeInternal_eq with_service_def sending_def PACKET_SIZE_def Let_def)

lemma repeat_writeInternal_shrinks:
  assumes "sending r k s"
  shows "\<exists>s' out. repeat_slot n (\<lambda>s. onCharacteristicWritten s r val) s = Inr (s', out)
      \<and> sending r k s' \<and> length (writeBuffer s') \<le> length (writeBuffer s)"
  using assms
proof (induction n arbitrary: s)
  case 0
  then show ?case by simp
next
  case (Suc n)
  from Suc.prems have h: "onCharacteristicWritten s r val = writeInternal s"
    by (simp add: onCharacteristicWritten_def sending_def)
  from writeInternal_drains [OF Suc.prems] obtain s1 out1 where
    w: "writeInternal s = Inr (s1, out1)" and s1: "sending r k s1"
    and l1: "length (writeBuffer s1) \<le> length (writeBuffer s) - 1"
    by blast
  from Suc.IH [OF s1] obtain s2 out2 where
    "repeat_slot n (\<lambda>s. onCharacteristicWritten s r val) s1 = Inr (s2, out2)"
    "sending r k s2" "length (writeBuffer s2) \<le> length (writeBuffer s1)"
    by blast
  with h w l1 show ?case
    by (auto simp add: then_do_Inr)
qed

lemma confirmation_drains:
  assumes "sending r k s" and "0 < k"
  shows "\<exists>s' log. step s (Transport (Svc_characteristicWritten r val)) = Inr (s', log)
      \<and> sending r k s' \<and> length (writeBuffer s') \<le> length (writeBuffer s) - 1"
proof -
  from assms obtain j where k: "detailSlots s = Suc j" and srv: "service s \<noteq> None"
    by (cases k) (auto simp add: sending_def)
  from assms have h: "onCharacteristicWritten s r val = writeInternal s"
    by (simp add: onCharacteristicWritten_def sending_def)
  from writeInternal_drains [OF assms(1)] obtain s1 out1 where
    w: "writeInternal s = Inr (s1, out1)" and s1: "sending r k s1"
    and l1: "length (writeBuffer s1) \<le> length (writeBuffer s) - 1"
    by blast
  from repeat_writeInternal_shrinks [OF s1, of j val] obtain s2 out2 where
    rep: "repeat_slot j (\<lambda>s. onCharacteristicWritten s r val) s1 = Inr (s2, out2)"
    and s2: "sending r k s2" and l2: "length (writeBuffer s2) \<le> length (writeBuffer s1)"
    by blast
  from k srv h w rep
  have "step s (Transport (Svc_characteristicWritten r val)) = Inr (s2, map Did (out1 @ out2))"
    by (auto simp add: then_do_def)
  with s2 l1 l2 show ?thesis by auto
qed

lemma confirmations_drain:
  assumes "sending r k s" and "0 < k"
  shows "\<exists>s' log. run s (replicate n (Transport (Svc_characteristicWritten r val))) = Inr (s', log)
      \<and> length (writeBuffer s') \<le> length (writeBuffer s) - n"
  using assms(1)
proof (induction n arbitrary: s)
  case 0
  then show ?case by simp
next
  case (Suc n)
  from confirmation_drains [OF Suc.prems assms(2), of val] obtain s1 log1 where
    st: "step s (Transport (Svc_characteristicWritten r val)) = Inr (s1, log1)"
    and s1: "sending r k s1"
    and l1: "length (writeBuffer s1) \<le> length (writeBuffer s) - 1"
    by blast
  from Suc.IH [OF s1] obtain s2 log2 where
    r: "run s1 (replicate n (Transport (Svc_characteristicWritten r val))) = Inr (s2, log2)"
    and l2: "length (writeBuffer s2) \<le> length (writeBuffer s1) - n"
    by blast
  from st r have "run s (replicate (Suc n) (Transport (Svc_characteristicWritten r val)))
      = Inr (s2, log1 @ log2)"
    by simp
  moreover from l1 l2 have "length (writeBuffer s2) \<le> length (writeBuffer s) - Suc n"
    by simp
  ultimately show ?case by blast
qed

lemma submitted_append: "submitted (xs @ ys) = submitted xs @ submitted ys"
  by (simp add: submitted_def)

lemma submitted_confirmations:
  "submitted (replicate n (Transport e)) = []"
  by (induction n) (simp_all add: submitted_def)

text \<open>
  When no slot calls back into the socket, the bytes do arrive in order. Take an open
  socket with an empty write buffer and a run in which it stays connected, whose
  \<^verbatim>\<open>writeData\<close> calls, at the top of the run or processed by a \<^verbatim>\<open>readData\<close>, pass at
  most \<open>maxBufferSize - 1\<close> bytes in total. Then the run does not crash, every
  \<^verbatim>\<open>writeData\<close> call returns the number of bytes it was given, every chunk written to
  RX FIFO has at most 20 bytes, and the chunks in the order written, followed by what is
  left in the write buffer, are the bytes passed to \<^verbatim>\<open>writeData\<close> in the order of the
  calls. If CTS is set at the end, as many write confirmations as bytes are left empty
  the write buffer, and the chunks written are then exactly the bytes passed.
\<close>

lemma write_order_without_slots:
  assumes "isOpen s" and "service s \<noteq> None" and "rxFifoChar s \<noteq> modemInChar s"
    and "writeBuffer s = []" and "list_all connected_event evs"
    and "int (length (concat (submitted evs))) \<le> maxBufferSize s - 1"
  shows "\<exists>s' log. run s evs = Inr (s', log)
      \<and> write_returns log = map (int \<circ> length) (submitted evs)
      \<and> (\<forall>c \<in> set (rx_chunks (rxFifoChar s) log). length c \<le> 20)
      \<and> concat (rx_chunks (rxFifoChar s) log) @ writeBuffer s' = concat (submitted evs)
      \<and> (cts s' \<and> 0 < detailSlots s' \<longrightarrow>
           (\<exists>s'' log'.
              run s (evs @ replicate (length (writeBuffer s'))
                             (Transport (Svc_characteristicWritten (rxFifoChar s) val)))
                = Inr (s'', log')
              \<and> (\<forall>c \<in> set (rx_chunks (rxFifoChar s) log'). length c \<le> 20)
              \<and> concat (rx_chunks (rxFifoChar s) log') = concat (submitted evs)))"
proof -
  let ?r = "rxFifoChar s"
  from assms have fits: "int (length (writeBuffer s)) + int (length (concat (submitted evs))) + 1
      \<le> maxBufferSize s"
    by simp
  from run_connected [OF assms(5) assms(1) assms(2) assms(3) fits]
  obtain s' log where r: "run s evs = Inr (s', log)" and srv': "service s' \<noteq> None"
    and h': "handles s' = handles s"
    and wr: "write_returns log = map (int \<circ> length) (submitted evs)"
    and cons: "concat (rx_chunks ?r log) @ writeBuffer s' = writeBuffer s @ concat (submitted evs)"
    and sz: "\<forall>c \<in> set (rx_chunks ?r log). length c \<le> 20"
    by blast
  let ?drain = "replicate (length (writeBuffer s')) (Transport (Svc_characteristicWritten ?r val))"
  have drained: "\<exists>s'' log'. run s (evs @ ?drain) = Inr (s'', log')
      \<and> (\<forall>c \<in> set (rx_chunks ?r log'). length c \<le> 20)
      \<and> concat (rx_chunks ?r log') = concat (submitted evs)"
    if c: "cts s' \<and> 0 < detailSlots s'"
  proof -
    from c srv' h' have snd: "sending ?r (detailSlots s') s'"
      by (simp add: sending_def handles_def)
    from confirmations_drain [OF snd, of "length (writeBuffer s')" val] c
    obtain s2 log2 where r2: "run s' ?drain = Inr (s2, log2)" and e2: "writeBuffer s2 = []"
      by auto
    from r r2 have whole: "run s (evs @ ?drain) = Inr (s2, log @ log2)"
      unfolding run_append by blast
    have ce: "list_all connected_event (evs @ ?drain)"
      using assms(5) by (auto simp add: list_all_iff)
    have sub: "submitted (evs @ ?drain) = submitted evs"
      by (simp add: submitted_append submitted_confirmations)
    from fits sub
    have fits': "int (length (writeBuffer s)) + int (length (concat (submitted (evs @ ?drain)))) + 1
        \<le> maxBufferSize s"
      by simp
    from run_connected [OF ce assms(1) assms(2) assms(3) fits'] whole sub assms(4) e2
    show ?thesis by auto
  qed
  from r wr sz cons assms(4) drained show ?thesis
    by (intro exI [of _ s'] exI [of _ log]) simp
qed

lemma long_write_run:
  "run laird_connected long_write =
     Inr (laird_sending,
          [Did (Service_writeCharacteristic (rxFifoChar laird_connected)
                  [1, 2, 3, 4, 5, 6, 7, 8, 9, 10, 11, 12, 13, 14, 15, 16, 17, 18, 19, 20]),
           Did (Emit (Sig_bytesWritten 20)), WriteReturned 25])"
  by (simp add: eval_defs long_write_def laird_sending_def)

subsection \<open>Open means connected\<close>

lemma writeInternal_wf: "writeInternal s = Inr (s', out) \<Longrightarrow> served s \<Longrightarrow> served s'"
  by (drule writeInternal_cases) (auto simp add: served_def well_formed_def isOpen_def)

lemma onServiceError_wf: "onServiceError s err = Inr (s', out) \<Longrightarrow> served s \<Longrightarrow> served s'"
  by (auto simp add: onServiceError_def served_def well_formed_def isOpen_def)

lemma onStateChanged_wf:
  "onStateChanged s newState d = Inr (s', out) \<Longrightarrow> served s \<Longrightarrow> served s'"
  by (auto simp add: onStateChanged_def cannotRetrieve_def served_def well_formed_def isOpen_def
      Let_def split: if_splits)

lemma onDescriptorWritten_wf:
  "onDescriptorWritten s descr newValue = Inr (s', out) \<Longrightarrow> served s \<Longrightarrow> served s'"
  by (auto simp add: onDescriptorWritten_def with_service_def split: if_splits)

lemma onCharacteristicChanged_wf:
  assumes "onCharacteristicChanged s info newValue = Inr (s', out)" and "served s"
  shows "served s'"
proof -
  consider (tx) "info = txFifoChar s"
    | (cts) "info \<noteq> txFifoChar s" "info = modemOutChar s"
    | (other) "info \<noteq> txFifoChar s" "info \<noteq> modemOutChar s"
    by blast
  then show ?thesis
  proof cases
    case tx
    with assms show ?thesis
      by (auto simp add: onCharacteristicChanged_def with_service_def then_do_Inr served_def
          well_formed_def isOpen_def Let_def split: if_splits)
  next
    case cts
    with assms have "writeInternal (s\<lparr>cts := (newValue = MODEM_SET_BIT (m s))\<rparr>) = Inr (s', out)"
      by (simp add: onCharacteristicChanged_def)
    moreover from assms(2) have "served (s\<lparr>cts := (newValue = MODEM_SET_BIT (m s))\<rparr>)"
      by (simp add: served_def well_formed_def isOpen_def)
    ultimately show ?thesis by (rule writeInternal_wf)
  next
    case other
    with assms show ?thesis by (simp add: onCharacteristicChanged_def)
  qed
qed

lemma onCharacteristicRead_wf:
  "onCharacteristicRead s info val = Inr (s', out) \<Longrightarrow> served s \<Longrightarrow> served s'"
  by (auto simp add: onCharacteristicRead_def served_def well_formed_def isOpen_def
      split: if_splits)

lemma onCharacteristicWritten_wf:
  assumes "onCharacteristicWritten s info val = Inr (s', out)" and "served s"
  shows "served s'"
proof (cases "info = rxFifoChar s")
  case True
  with assms(1) have "writeInternal s = Inr (s', out)"
    by (simp add: onCharacteristicWritten_def)
  from this assms(2) show ?thesis by (rule writeInternal_wf)
next
  case False
  with assms show ?thesis
    by (auto simp add: onCharacteristicWritten_def with_service_def served_def well_formed_def
        isOpen_def Let_def split: if_splits)
qed

lemma deliver_wf:
  assumes "deliver s e = Inr (s', out)" and "well_formed s"
  shows "well_formed s'"
proof (cases "service s = None")
  case True
  with assms show ?thesis
    by (cases e)
      (auto simp add: onControllerError_def onConnected_def onDiscoveryFinished_def
        with_controller_def well_formed_def isOpen_def Let_def split: if_splits option.splits)
next
  case False
  with assms(2) have sv: "served s" by (simp add: served_def)
  have "served s'"
  proof (cases e)
    case Ctl_error
    with assms sv show ?thesis
      by (auto simp add: onControllerError_def with_controller_def served_def well_formed_def
          isOpen_def split: if_splits)
  next
    case Ctl_connected
    with assms sv show ?thesis
      by (auto simp add: onConnected_def with_controller_def split: if_splits)
  next
    case (Ctl_discoveryFinished services)
    with assms sv show ?thesis
      by (auto simp add: onDiscoveryFinished_def served_def well_formed_def isOpen_def Let_def
          split: if_splits option.splits)
  next
    case (Svc_error err)
    with assms sv False repeat_slot_inv [of "\<lambda>s. onServiceError s err" served, OF onServiceError_wf]
    show ?thesis by auto
  next
    case (Svc_stateChanged newState d)
    with assms sv False
      repeat_slot_inv [of "\<lambda>s. onStateChanged s newState d" served, OF onStateChanged_wf]
    show ?thesis by auto
  next
    case (Svc_descriptorWritten descr newValue)
    with assms sv False
      repeat_slot_inv [of "\<lambda>s. onDescriptorWritten s descr newValue" served,
        OF onDescriptorWritten_wf]
    show ?thesis by auto
  next
    case (Svc_characteristicChanged info newValue)
    with assms sv False
      repeat_slot_inv [of "\<lambda>s. onCharacteristicChanged s info newValue" served,
        OF onCharacteristicChanged_wf]
    show ?thesis by auto
  next
    case (Svc_characteristicRead info val)
    with assms sv False
      repeat_slot_inv [of "\<lambda>s. onCharacteristicRead s info val" served,
        OF onCharacteristicRead_wf]
    show ?thesis by auto
  next
    case (Svc_characteristicWritten info val)
    with assms sv False
      repeat_slot_inv [of "\<lambda>s. onCharacteristicWritten s info val" served,
        OF onCharacteristicWritten_wf]
    show ?thesis by auto
  qed
  then show ?thesis by (simp add: served_def)
qed

lemma step_wf:
  assumes "step s e = Inr (s', log)" and "well_formed s"
    and "\<forall>maxlen pending. e \<noteq> Call_readData maxlen pending"
  shows "well_formed s'"
proof (cases e)
  case (Call_connectToDevice remoteDeviceInfo)
  with assms show ?thesis
    by (auto simp add: connectToDevice_def well_formed_def isOpen_def split: if_splits)
next
  case Call_close
  with assms show ?thesis
    by (auto simp add: close_def with_controller_def well_formed_def isOpen_def
        split: if_splits sum.splits)
next
  case (Call_readData maxlen pending)
  with assms show ?thesis by simp
next
  case (Call_writeData data)
  show ?thesis
  proof (cases "isOpen s \<and> int (length (writeBuffer s)) + int (length data) + 1 \<le> maxBufferSize s")
    case True
    with assms Call_writeData obtain out where
      w: "writeInternal (s\<lparr>writeBuffer := writeBuffer s @ data\<rparr>) = Inr (s', out)"
      by (auto simp add: writeData_eq split: sum.splits)
    from True assms(2) have "served (s\<lparr>writeBuffer := writeBuffer s @ data\<rparr>)"
      by (simp add: served_def well_formed_def isOpen_def)
    from writeInternal_wf [OF w this] show ?thesis by (simp add: served_def)
  next
    case False
    with assms Call_writeData show ?thesis
      by (auto simp add: writeData_eq well_formed_def isOpen_def split: if_splits)
  qed
next
  case Call_setRTS
  with assms show ?thesis
    by (auto simp add: setRTS_def with_service_def split: if_splits sum.splits)
next
  case Call_unsetRTS
  with assms show ?thesis
    by (auto simp add: unsetRTS_def with_service_def split: if_splits sum.splits)
next
  case (Transport e')
  with assms show ?thesis
    by (auto split: sum.splits dest: deliver_wf)
qed

lemma run_wf: "run s evs = Inr (s', log) \<Longrightarrow> well_formed s \<Longrightarrow> well_formed s'"
proof (rule run_inv [where P = well_formed])
  show "\<And>s e s' log. \<forall>maxlen pending. e \<noteq> Call_readData maxlen pending
      \<Longrightarrow> step s e = Inr (s', log) \<Longrightarrow> well_formed s \<Longrightarrow> well_formed s'"
    using step_wf by blast
  show "\<And>s. well_formed s \<Longrightarrow> well_formed (s\<lparr>vsp_error := OperationError\<rparr>)"
    by (simp add: well_formed_def isOpen_def)
  show "\<And>s n. well_formed s \<Longrightarrow> well_formed (s\<lparr>readBuffer := drop n (readBuffer s)\<rparr>)"
    by (simp add: well_formed_def isOpen_def)
qed

lemma reachable_well_formed:
  assumes "run (QVSPSocket n) evs = Inr (s, log)"
  shows "(isOpen s \<longleftrightarrow> vsp_state s = ConnectedState) \<and> vsp_state s \<noteq> ClosingState
    \<and> (isOpen s \<longrightarrow> service s \<noteq> None \<and> controller s \<noteq> None)"
proof -
  have "well_formed (QVSPSocket n)"
    by (simp add: well_formed_def QVSPSocket_def isOpen_def)
  with assms have "well_formed s" by (rule run_wf)
  then show ?thesis by (auto simp add: well_formed_def)
qed

end
